theory Spec2Isabelle
  imports Complex_Main
begin

text \<open>
  A model of the scene-graph engine of canvas-react: the affine transforms of
  \<open>Matrix.ts\<close>, the nodes of \<open>Node.ts\<close>, the containers of \<open>Container.ts\<close>
  and the transformer of \<open>Transformer.ts\<close>, followed by the properties that the
  specification states about them.
\<close>

section \<open>Numbers\<close>

text \<open>
  The engine computes with JavaScript numbers, which are IEEE 754 doubles.  The
  geometry of the scene graph is modelled over exact reals: there rounding, overflow
  to infinity, NaN and the sign of zero are outside the model.  The round trip
  through \<open>invert\<close>, which rounding decides, is modelled over doubles in a section
  of its own.  \<open>Math.cos\<close>, \<open>Math.sin\<close> and \<open>Math.sqrt\<close> are the real
  functions \<open>cos\<close>, \<open>sin\<close> and \<open>sqrt\<close>.
\<close>

definition atan2 :: "real \<Rightarrow> real \<Rightarrow> real" where
  \<comment> \<open>\<open>Math.atan2(y, x)\<close> of the ECMAScript library, on reals.\<close>
  "atan2 y x =
     (if 0 < x then arctan (y / x)
      else if x < 0 then (if 0 \<le> y then arctan (y / x) + pi else arctan (y / x) - pi)
      else if 0 < y then pi / 2
      else if y < 0 then - (pi / 2)
      else 0)"

definition round_js :: "real \<Rightarrow> int" where
  \<comment> \<open>\<open>Math.round\<close>: the nearest integer, a half rounded up.\<close>
  "round_js v = \<lfloor>v + 1 / 2\<rfloor>"

definition rem_js :: "int \<Rightarrow> int \<Rightarrow> int" where
  \<comment> \<open>The operator \<open>%\<close> on integers: the remainder has the sign of the dividend.\<close>
  "rem_js i k = sgn i * (\<bar>i\<bar> mod \<bar>k\<bar>)"

section \<open>Matrix.ts: points and affine transforms\<close>

datatype Point = Point (px: real) (py: real)

datatype Matrix2D =
  Matrix2D (ma: real) (mb: real) (mc: real) (md: real) (me: real) (mf: real)

text \<open>
  The methods \<open>multiply\<close>, \<open>translate\<close>, \<open>rotate\<close> and \<open>scale\<close> overwrite
  the receiver and return it; the model returns the new value of the receiver.  No
  caller in the engine keeps a second reference to a receiver.
\<close>

definition identity :: Matrix2D where
  "identity = Matrix2D 1 0 0 1 0 0"

definition multiply :: "Matrix2D \<Rightarrow> Matrix2D \<Rightarrow> Matrix2D" where
  "multiply this matrix =
     Matrix2D (ma this * ma matrix + mc this * mb matrix)
              (mb this * ma matrix + md this * mb matrix)
              (ma this * mc matrix + mc this * md matrix)
              (mb this * mc matrix + md this * md matrix)
              (ma this * me matrix + mc this * mf matrix + me this)
              (mb this * me matrix + md this * mf matrix + mf this)"

definition translate :: "Matrix2D \<Rightarrow> real \<Rightarrow> real \<Rightarrow> Matrix2D" where
  "translate this x y = multiply this (Matrix2D 1 0 0 1 x y)"

definition rotateM :: "Matrix2D \<Rightarrow> real \<Rightarrow> Matrix2D" where
  "rotateM this angle =
     multiply this (Matrix2D (cos angle) (sin angle) (- sin angle) (cos angle) 0 0)"

definition scaleM :: "Matrix2D \<Rightarrow> real \<Rightarrow> real \<Rightarrow> Matrix2D" where
  "scaleM this x y = multiply this (Matrix2D x 0 0 y 0 0)"

definition invert :: "Matrix2D \<Rightarrow> Matrix2D" where
  "invert this =
     (let det = ma this * md this - mb this * mc this in
      if det = 0 then Matrix2D 1 0 0 1 0 0
      else
        let invDet = 1 / det in
        Matrix2D (md this * invDet)
                 (- mb this * invDet)
                 (- mc this * invDet)
                 (ma this * invDet)
                 ((mc this * mf this - md this * me this) * invDet)
                 ((mb this * me this - ma this * mf this) * invDet))"

definition transformPoint :: "Matrix2D \<Rightarrow> Point \<Rightarrow> Point" where
  "transformPoint this point =
     Point (ma this * px point + mc this * py point + me this)
           (mb this * px point + md this * py point + mf this)"

datatype Decomposed =
  Decomposed (dx: real) (dy: real) (dscaleX: real) (dscaleY: real)
             (drotation: real) (dskewX: real) (dskewY: real)

definition decompose :: "Matrix2D \<Rightarrow> Decomposed" where
  "decompose this =
     (let a = ma this; b = mb this; c = mc this; d = md this;
          skewX = - atan2 (- c) d;
          skewY = atan2 b a;
          delta = \<bar>skewX + skewY\<bar>
      in
      if delta < 1 / 100000 \<or> \<bar>pi * 2 - delta\<bar> < 1 / 100000 then
        (let rotation = skewY;
             rotation' = (if a < 0 \<and> 0 \<le> d
                          then rotation + (if rotation \<le> 0 then pi else - pi)
                          else rotation)
         in Decomposed (me this) (mf this) (sqrt (a * a + b * b)) (sqrt (c * c + d * d))
                       rotation' skewX skewY)
      else Decomposed (me this) (mf this) a d 0 skewX skewY)"

section \<open>Matrix.ts in double arithmetic\<close>

text \<open>
  For the round trip through \<open>invert\<close> the methods \<open>multiply\<close>, \<open>invert\<close> and
  \<open>transformPoint\<close> are stated a second time, over doubles.  A double is a finite
  real, an infinity or NaN; the sign of zero is not kept, so that a division by zero
  takes its sign from the dividend alone (\<open>invert\<close> divides only by a determinant
  that is not zero).  Each operation returns the exact result rounded to the nearest
  double, ties to even (\<open>rnd\<close>): a finite double other than zero is a multiple of
  \<open>ulp e\<close>, where \<open>e\<close>, the exponent of its binade, is at least -1022, and a result
  that rounds to a magnitude of \<open>2 ^ 1024\<close> or more is an infinity.

  \<open>isDouble x\<close>: the real \<open>x\<close> is a double.  \<open>invertSteps\<close>, \<open>multiplySteps\<close>
  and \<open>transformSteps\<close>: the exact values of the intermediate results of the three
  methods, one for each operation of the source; when all of them are doubles, no
  operation rounds.  \<open>small k x\<close>: \<open>x\<close> is an integer of magnitude at most \<open>k\<close>.
  \<open>within6 v t\<close>: the double \<open>v\<close> is finite and within \<open>1e-6\<close> of \<open>t\<close>.
\<close>

datatype double = Fin real | PInf | NInf | NaN

definition exponent :: "real \<Rightarrow> int" where
  "exponent x = max \<lfloor>log 2 \<bar>x\<bar>\<rfloor> (- 1022)"

definition ulp :: "int \<Rightarrow> real" where
  "ulp e = (if 52 \<le> e then 2 ^ nat (e - 52) else 1 / 2 ^ nat (52 - e))"

definition roundEven :: "real \<Rightarrow> int" where
  "roundEven z =
     (let f = \<lfloor>z\<rfloor> in
      if z - of_int f < 1 / 2 then f
      else if 1 / 2 < z - of_int f then f + 1
      else if even f then f else f + 1)"

definition rnd :: "real \<Rightarrow> double" where
  "rnd x =
     (if x = 0 then Fin 0
      else
        let q = ulp (exponent x);
            y = q * of_int (roundEven (x / q))
        in if 2 ^ 1024 \<le> \<bar>y\<bar> then (if 0 < x then PInf else NInf) else Fin y)"






















section \<open>Node.ts: nodes in a store\<close>

text \<open>
  Nodes are objects that refer to each other: a node holds a reference to its parent,
  a container holds the array of its children, a transformer holds its target.  The
  model keeps every object in a store indexed by natural numbers; a reference is an
  index.  Nothing in the store forces the parent references to form a tree, as nothing
  does in the source (\<open>c.add(c)\<close> makes a cycle), so a walk along parent or child
  references is a partial function: it has no value where the source does not return.
\<close>

datatype Rect = Rect (rx: real) (ry: real) (width: real) (height: real)

datatype callback = UserCallback nat | BoundDragStart | BoundDragMove | BoundDragEnd

text \<open>
  A function value held as an event handler: one that the user supplies in the
  properties, or one of the three methods that the constructor of a transformer binds
  to the transformer (\<open>this.handleDragStart.bind(this)\<close>, ...).
\<close>

datatype Img = Img (img_id: nat) (img_width: real) (img_height: real)

text \<open>
  An \<open>HTMLImageElement\<close>: the object (by its identity) and the \<open>width\<close> and
  \<open>height\<close> that \<open>Image.getSelfBounds\<close> reads.
\<close>

datatype pval = Num real | Str string | Flag bool | Handler callback | Pic Img

datatype pkey =
  K_width | K_height | K_radius | K_fill | K_filter
  | K_shadowColor | K_shadowBlur | K_shadowOffsetX | K_shadowOffsetY
  | K_clip | K_clipX | K_clipY | K_clipWidth | K_clipHeight | K_handleSize
  | K_src | K_image
  | K_onClick | K_onMouseEnter | K_onMouseLeave | K_onDragStart | K_onDragMove | K_onDragEnd

text \<open>
  The property bag \<open>props\<close> of a node, on the keys the engine reads besides the
  transform fields.  A key that is absent is \<open>undefined\<close> in the source.
\<close>

type_synonym props = "pkey \<Rightarrow> pval option"

definition numOr :: "pval option \<Rightarrow> real \<Rightarrow> real" where
  \<comment> \<open>A numeric property with its default: \<open>const { width = 100 } = this.props\<close>, and
     \<open>props.shadowBlur || 0\<close> when the default is 0.\<close>
  "numOr v dflt = (case v of Some (Num r) \<Rightarrow> r | _ \<Rightarrow> dflt)"

definition truthy :: "pval option \<Rightarrow> bool" where
  "truthy v = (case v of None \<Rightarrow> False | Some (Flag b) \<Rightarrow> b
                | Some (Num r) \<Rightarrow> r \<noteq> 0 | Some (Str t) \<Rightarrow> t \<noteq> []
                | Some (Handler h) \<Rightarrow> True | Some (Pic i) \<Rightarrow> True)"

definition strOr :: "pval option \<Rightarrow> string \<Rightarrow> string" where
  "strOr v dflt = (case v of Some (Str t) \<Rightarrow> t | _ \<Rightarrow> dflt)"

definition callbackOf :: "pval option \<Rightarrow> callback option" where
  \<comment> \<open>A handler property, a function when it is present.\<close>
  "callbackOf v = (case v of Some (Handler h) \<Rightarrow> Some h | _ \<Rightarrow> None)"

definition picOf :: "pval option \<Rightarrow> Img option" where
  \<comment> \<open>The property \<open>image\<close>, an image element when it is present.\<close>
  "picOf v = (case v of Some (Pic i) \<Rightarrow> Some i | _ \<Rightarrow> None)"

datatype shape =
  BaseNode | RectShape | CircleShape | ImageShape | ContainerNode | TransformerNode

text \<open>
  The classes of the model: \<open>Node\<close> itself, the shapes \<open>Rect\<close>, \<open>Circle\<close> and
  \<open>Image\<close>, \<open>Container\<close> and \<open>Transformer\<close>.  The shapes whose bounds or hit
  test need the drawing surface (\<open>Text\<close>, \<open>Line\<close>, \<open>Path\<close>) are not modelled;
  they take \<open>render\<close>, \<open>hitTest\<close> and \<open>setProps\<close> from \<open>Node\<close> as they are.
\<close>

record CanvasEvents =
  onClick :: "callback option"
  onMouseEnter :: "callback option"
  onMouseLeave :: "callback option"
  onDragStart :: "callback option"
  onDragMove :: "callback option"
  onDragEnd :: "callback option"

record TransformerState =
  target :: "nat option"
  activeAnchor :: "string option"
  startX :: real
  startY :: real
  startWidth :: real
  startHeight :: real
  startScaleX :: real
  startScaleY :: real
  startRotation :: real
  startXPos :: real
  startYPos :: real

record Node =
  node_x :: real
  node_y :: real
  rotation :: real
  scaleX :: real
  scaleY :: real
  zIndex :: real
  cursor :: string
  draggable :: bool
  parent :: "nat option"
  props :: props
  kind :: shape
  children :: "nat list"
  tstate :: TransformerState
  events :: CanvasEvents
  imageObj :: "Img option"

text \<open>
  \<open>redraws\<close> is instrumentation: \<open>requestRedraw\<close> of the base class has no effect
  of its own but to call the parent's, so the model records each call of
  \<open>requestRedraw\<close> with its receiver, in order.  \<open>cache\<close> and \<open>pending\<close> are
  the two maps of the one \<open>AssetManager\<close> (\<open>Assets.ts\<close>): the images loaded, by
  URL, and the URLs whose load has started.
\<close>

record Scene =
  nodes :: "nat \<Rightarrow> Node"
  redraws :: "nat list"
  cache :: "string \<Rightarrow> Img option"
  pending :: "string list"

definition upd :: "Scene \<Rightarrow> nat \<Rightarrow> (Node \<Rightarrow> Node) \<Rightarrow> Scene" where
  "upd s i g = s\<lparr>nodes := (nodes s)(i := g (nodes s i))\<rparr>"

definition isContainer :: "Node \<Rightarrow> bool" where
  \<comment> \<open>\<open>Transformer extends Container\<close>.\<close>
  "isContainer nd = (kind nd = ContainerNode \<or> kind nd = TransformerNode)"

subsection \<open>Redraw requests\<close>

partial_function (option) requestRedraw :: "Scene \<Rightarrow> nat \<Rightarrow> Scene option" where
  "requestRedraw s this =
     (let s' = s\<lparr>redraws := redraws s @ [this]\<rparr> in
      case parent (nodes s' this) of
        None \<Rightarrow> Some s'
      | Some p \<Rightarrow> requestRedraw s' p)"

subsection \<open>Transforms\<close>

definition getTransform :: "Node \<Rightarrow> Matrix2D" where
  "getTransform nd =
     scaleM (rotateM (translate (Matrix2D 1 0 0 1 0 0) (node_x nd) (node_y nd)) (rotation nd))
            (scaleX nd) (scaleY nd)"

partial_function (option) globalLoop :: "Scene \<Rightarrow> Matrix2D \<Rightarrow> nat option \<Rightarrow> Matrix2D option" where
  \<comment> \<open>The loop \<open>while (parent)\<close> of \<open>getGlobalTransform\<close>.\<close>
  "globalLoop s matrix par =
     (case par of
        None \<Rightarrow> Some matrix
      | Some p \<Rightarrow> globalLoop s (multiply (getTransform (nodes s p)) matrix) (parent (nodes s p)))"

definition getGlobalTransform :: "Scene \<Rightarrow> nat \<Rightarrow> Matrix2D option" where
  "getGlobalTransform s this = globalLoop s (getTransform (nodes s this)) (parent (nodes s this))"

subsection \<open>Bounds\<close>

definition min4 :: "real \<Rightarrow> real \<Rightarrow> real \<Rightarrow> real \<Rightarrow> real" where
  "min4 a b c d = min (min a b) (min c d)"

definition max4 :: "real \<Rightarrow> real \<Rightarrow> real \<Rightarrow> real \<Rightarrow> real" where
  "max4 a b c d = max (max a b) (max c d)"

definition shapeBounds :: "Node \<Rightarrow> Rect" where
  \<comment> \<open>\<open>getSelfBounds\<close> of the classes that hold no children.\<close>
  "shapeBounds nd =
     (case kind nd of
        RectShape \<Rightarrow> Rect 0 0 (numOr (props nd K_width) 100) (numOr (props nd K_height) 100)
      | CircleShape \<Rightarrow>
          (let radius = numOr (props nd K_radius) 50 in
           Rect (- radius) (- radius) (radius * 2) (radius * 2))
      | ImageShape \<Rightarrow>
          (if props nd K_width \<noteq> None \<and> props nd K_height \<noteq> None
           then Rect 0 0 (numOr (props nd K_width) 0) (numOr (props nd K_height) 0)
           else case imageObj nd of
                  Some img \<Rightarrow>
                    Rect 0 0
                      (if truthy (props nd K_width) then numOr (props nd K_width) 0
                       else img_width img)
                      (if truthy (props nd K_height) then numOr (props nd K_height) 0
                       else img_height img)
                | None \<Rightarrow> Rect 0 0 0 0)
      | _ \<Rightarrow> Rect 0 0 0 0)"

text \<open>
  \<open>Container.getSelfBounds\<close> starts from \<open>minX = minY = Infinity\<close> and
  \<open>maxX = maxY = -Infinity\<close>; the model writes this start as \<open>None\<close> and an extent
  \<open>(minX, minY, maxX, maxY)\<close> of real numbers as \<open>Some\<close>.
\<close>

type_synonym extent = "(real \<times> real \<times> real \<times> real) option"

definition extend :: "extent \<Rightarrow> Matrix2D \<Rightarrow> Rect \<Rightarrow> real \<times> real \<times> real \<times> real" where
  \<comment> \<open>The body of \<open>children.forEach\<close> in \<open>Container.getSelfBounds\<close>, after the
     child's bounds and transform are known.\<close>
  "extend acc matrix childBounds =
     (let p1 = transformPoint matrix (Point (rx childBounds) (ry childBounds));
          p2 = transformPoint matrix (Point (rx childBounds + width childBounds) (ry childBounds));
          p3 = transformPoint matrix (Point (rx childBounds) (ry childBounds + height childBounds));
          p4 = transformPoint matrix
                 (Point (rx childBounds + width childBounds) (ry childBounds + height childBounds));
          mnx = min4 (px p1) (px p2) (px p3) (px p4);
          mxx = max4 (px p1) (px p2) (px p3) (px p4);
          mny = min4 (py p1) (py p2) (py p3) (py p4);
          mxy = max4 (py p1) (py p2) (py p3) (py p4)
      in case acc of
           None \<Rightarrow> (mnx, mny, mxx, mxy)
         | Some (minX, minY, maxX, maxY) \<Rightarrow>
             (min minX mnx, min minY mny, max maxX mxx, max maxY mxy))"

definition extentRect :: "extent \<Rightarrow> Rect" where
  \<comment> \<open>The result of \<open>Container.getSelfBounds\<close>; the start value is never the result,
     since the container has a child (\<open>aggregate_nonempty\<close>).\<close>
  "extentRect acc =
     (case acc of
        None \<Rightarrow> Rect 0 0 0 0
      | Some (minX, minY, maxX, maxY) \<Rightarrow> Rect minX minY (maxX - minX) (maxY - minY))"

partial_function (option) aggregate :: "Scene \<Rightarrow> nat list \<Rightarrow> extent \<Rightarrow> extent option" where
  \<comment> \<open>\<open>children.forEach\<close> of \<open>Container.getSelfBounds\<close>; the bounds of a child that
     is a container are the recursive call.\<close>
  "aggregate s ids acc =
     (case ids of
        [] \<Rightarrow> Some acc
      | child # rest \<Rightarrow>
          Option.bind
            (if isContainer (nodes s child) \<and> children (nodes s child) \<noteq> []
             then Option.bind (aggregate s (children (nodes s child)) None)
                    (\<lambda>a. Some (extentRect a))
             else if isContainer (nodes s child) then Some (Rect 0 0 0 0)
             else Some (shapeBounds (nodes s child)))
            (\<lambda>childBounds.
               aggregate s rest (Some (extend acc (getTransform (nodes s child)) childBounds))))"

definition getSelfBounds :: "Scene \<Rightarrow> nat \<Rightarrow> Rect option" where
  "getSelfBounds s this =
     (if isContainer (nodes s this) then
        (if children (nodes s this) = [] then Some (Rect 0 0 0 0)
         else Option.bind (aggregate s (children (nodes s this)) None)
                (\<lambda>a. Some (extentRect a)))
      else Some (shapeBounds (nodes s this)))"

definition boundsOf :: "Matrix2D \<Rightarrow> Rect \<Rightarrow> Rect" where
  \<comment> \<open>The box around the four transformed corners, in \<open>getGlobalBounds\<close>.\<close>
  "boundsOf globalTransform selfBounds =
     (let p1 = transformPoint globalTransform (Point (rx selfBounds) (ry selfBounds));
          p2 = transformPoint globalTransform
                 (Point (rx selfBounds + width selfBounds) (ry selfBounds));
          p3 = transformPoint globalTransform
                 (Point (rx selfBounds) (ry selfBounds + height selfBounds));
          p4 = transformPoint globalTransform
                 (Point (rx selfBounds + width selfBounds) (ry selfBounds + height selfBounds));
          minX = min4 (px p1) (px p2) (px p3) (px p4);
          maxX = max4 (px p1) (px p2) (px p3) (px p4);
          minY = min4 (py p1) (py p2) (py p3) (py p4);
          maxY = max4 (py p1) (py p2) (py p3) (py p4)
      in Rect minX minY (maxX - minX) (maxY - minY))"

definition getGlobalBounds :: "Scene \<Rightarrow> nat \<Rightarrow> Rect option" where
  "getGlobalBounds s this =
     Option.bind (getSelfBounds s this) (\<lambda>selfBounds.
     Option.bind (getGlobalTransform s this) (\<lambda>globalTransform.
       Some (boundsOf globalTransform selfBounds)))"

subsection \<open>Property setters and \<open>setProps\<close>\<close>

definition set_x :: "Scene \<Rightarrow> nat \<Rightarrow> real \<Rightarrow> Scene option" where
  "set_x s this val =
     (if node_x (nodes s this) \<noteq> val
      then requestRedraw (upd s this (\<lambda>nd. nd\<lparr>node_x := val\<rparr>)) this
      else Some s)"

definition set_y :: "Scene \<Rightarrow> nat \<Rightarrow> real \<Rightarrow> Scene option" where
  "set_y s this val =
     (if node_y (nodes s this) \<noteq> val
      then requestRedraw (upd s this (\<lambda>nd. nd\<lparr>node_y := val\<rparr>)) this
      else Some s)"

definition set_rotation :: "Scene \<Rightarrow> nat \<Rightarrow> real \<Rightarrow> Scene option" where
  "set_rotation s this val =
     (if rotation (nodes s this) \<noteq> val
      then requestRedraw (upd s this (\<lambda>nd. nd\<lparr>rotation := val\<rparr>)) this
      else Some s)"

definition set_scaleX :: "Scene \<Rightarrow> nat \<Rightarrow> real \<Rightarrow> Scene option" where
  "set_scaleX s this val =
     (if scaleX (nodes s this) \<noteq> val
      then requestRedraw (upd s this (\<lambda>nd. nd\<lparr>scaleX := val\<rparr>)) this
      else Some s)"

definition set_scaleY :: "Scene \<Rightarrow> nat \<Rightarrow> real \<Rightarrow> Scene option" where
  "set_scaleY s this val =
     (if scaleY (nodes s this) \<noteq> val
      then requestRedraw (upd s this (\<lambda>nd. nd\<lparr>scaleY := val\<rparr>)) this
      else Some s)"

definition sortChildren :: "Scene \<Rightarrow> nat \<Rightarrow> Scene" where
  \<comment> \<open>\<open>this.children.sort((a, b) => a.zIndex - b.zIndex)\<close>: \<open>Array.prototype.sort\<close>
     is stable, and so is \<open>sort_key\<close>.\<close>
  "sortChildren s this =
     upd s this (\<lambda>nd. nd\<lparr>children := sort_key (\<lambda>c. zIndex (nodes s c)) (children nd)\<rparr>)"

definition set_zIndex :: "Scene \<Rightarrow> nat \<Rightarrow> real \<Rightarrow> Scene option" where
  \<comment> \<open>The parent has a method \<open>sortChildren\<close> when it is a container.\<close>
  "set_zIndex s this val =
     (if zIndex (nodes s this) \<noteq> val then
        Option.bind (requestRedraw (upd s this (\<lambda>nd. nd\<lparr>zIndex := val\<rparr>)) this) (\<lambda>s'.
          case parent (nodes s' this) of
            None \<Rightarrow> Some s'
          | Some p \<Rightarrow> if isContainer (nodes s' p) then Some (sortChildren s' p) else Some s')
      else Some s)"

definition set_cursor :: "Scene \<Rightarrow> nat \<Rightarrow> string \<Rightarrow> Scene" where
  "set_cursor s this val = upd s this (\<lambda>nd. nd\<lparr>cursor := val\<rparr>)"

text \<open>
  A partial property bag, as \<open>setProps\<close> receives it: the supplied fields in the
  order of their keys.
\<close>

datatype field =
  F_x real | F_y real | F_rotation real | F_scaleX real | F_scaleY real | F_zIndex real
  | F_draggable bool | F_cursor string | F_other pkey pval

definition assignField :: "Scene \<Rightarrow> nat \<Rightarrow> field \<Rightarrow> Scene option" where
  \<comment> \<open>One key of \<open>Object.assign(this, newProps)\<close>: an accessor property runs its
     setter, \<open>draggable\<close> is a plain field, any other key becomes a field of the
     instance that no method reads.\<close>
  "assignField s this fld =
     (case fld of
        F_x v \<Rightarrow> set_x s this v
      | F_y v \<Rightarrow> set_y s this v
      | F_rotation v \<Rightarrow> set_rotation s this v
      | F_scaleX v \<Rightarrow> set_scaleX s this v
      | F_scaleY v \<Rightarrow> set_scaleY s this v
      | F_zIndex v \<Rightarrow> set_zIndex s this v
      | F_draggable b \<Rightarrow> Some (upd s this (\<lambda>nd. nd\<lparr>draggable := b\<rparr>))
      | F_cursor c \<Rightarrow> Some (set_cursor s this c)
      | F_other k v \<Rightarrow> Some s)"

fun assignAll :: "Scene \<Rightarrow> nat \<Rightarrow> field list \<Rightarrow> Scene option" where
  "assignAll s this [] = Some s"
| "assignAll s this (fld # flds) =
     Option.bind (assignField s this fld) (\<lambda>s'. assignAll s' this flds)"

fun mergeProps :: "props \<Rightarrow> field list \<Rightarrow> props" where
  \<comment> \<open>\<open>{ ...this.props, ...newProps }\<close> on the keys of the model.\<close>
  "mergeProps ps [] = ps"
| "mergeProps ps (F_other k v # flds) = mergeProps (ps(k \<mapsto> v)) flds"
| "mergeProps ps (_ # flds) = mergeProps ps flds"

definition updateEvents :: "props \<Rightarrow> Node \<Rightarrow> Node" where
  \<comment> \<open>\<open>this.events.onClick = props.onClick\<close>, and so on for the six handlers.\<close>
  "updateEvents ps nd =
     nd\<lparr>events := \<lparr>onClick = callbackOf (ps K_onClick),
                    onMouseEnter = callbackOf (ps K_onMouseEnter),
                    onMouseLeave = callbackOf (ps K_onMouseLeave),
                    onDragStart = callbackOf (ps K_onDragStart),
                    onDragMove = callbackOf (ps K_onDragMove),
                    onDragEnd = callbackOf (ps K_onDragEnd)\<rparr>\<rparr>"

definition nodeSetProps :: "Scene \<Rightarrow> nat \<Rightarrow> field list \<Rightarrow> Scene option" where
  \<comment> \<open>\<open>Node.setProps\<close>: \<open>Object.assign\<close>, the merge of the property bag,
     \<open>updateEvents(this.props)\<close> and the last, unconditional \<open>requestRedraw\<close>.\<close>
  "nodeSetProps s this newProps =
     Option.bind (assignAll s this newProps) (\<lambda>s1.
       requestRedraw
         (upd s1 this
            (\<lambda>nd. updateEvents (mergeProps (props nd) newProps)
                     (nd\<lparr>props := mergeProps (props nd) newProps\<rparr>)))
         this)"

fun supplied :: "field list \<Rightarrow> pkey \<Rightarrow> pval option" where
  \<comment> \<open>\<open>newProps.key\<close> for a key of the property bag.\<close>
  "supplied [] k = None"
| "supplied (F_other k' v # flds) k =
     (case supplied flds k of Some w \<Rightarrow> Some w | None \<Rightarrow> if k' = k then Some v else None)"
| "supplied (_ # flds) k = supplied flds k"

definition updateImage :: "Scene \<Rightarrow> nat \<Rightarrow> props \<Rightarrow> Scene option" where
  \<comment> \<open>\<open>Image.updateImage\<close>.  \<open>Assets.loadImage\<close> notes the URL as pending unless it
     is already; the promise it returns is settled after the call has returned, which
     is outside the model.\<close>
  "updateImage s this ps =
     (if truthy (ps K_image)
      then requestRedraw (upd s this (\<lambda>nd. nd\<lparr>imageObj := picOf (ps K_image)\<rparr>)) this
      else if truthy (ps K_src) then
        (case cache s (strOr (ps K_src) []) of
           Some cached \<Rightarrow> requestRedraw (upd s this (\<lambda>nd. nd\<lparr>imageObj := Some cached\<rparr>)) this
         | None \<Rightarrow>
             Some (if strOr (ps K_src) [] \<in> set (pending s) then s
                   else s\<lparr>pending := pending s @ [strOr (ps K_src) []]\<rparr>))
      else Some s)"

definition setProps :: "Scene \<Rightarrow> nat \<Rightarrow> field list \<Rightarrow> Scene option" where
  \<comment> \<open>\<open>setProps\<close> by class: \<open>Image\<close> overrides it, \<open>Container.setProps\<close> only
     calls \<open>Node.setProps\<close>, and no other class has its own.\<close>
  "setProps s this newProps =
     (if kind (nodes s this) = ImageShape then
        Option.bind (nodeSetProps s this newProps) (\<lambda>s1.
          if truthy (supplied newProps K_src) \<or> truthy (supplied newProps K_image)
          then updateImage s1 this (props (nodes s1 this))
          else Some s1)
      else nodeSetProps s this newProps)"

section \<open>Container.ts\<close>

definition add :: "Scene \<Rightarrow> nat \<Rightarrow> nat \<Rightarrow> Scene option" where
  "add s this node =
     (let s1 = upd s node (\<lambda>nd. nd\<lparr>parent := Some this\<rparr>);
          s2 = upd s1 this (\<lambda>nd. nd\<lparr>children := children nd @ [node]\<rparr>)
      in requestRedraw (sortChildren s2 this) this)"

definition removeNode :: "Scene \<Rightarrow> nat \<Rightarrow> nat \<Rightarrow> Scene option" where
  \<comment> \<open>\<open>Container.remove\<close>: \<open>indexOf\<close> finds the first occurrence, \<open>splice\<close> takes it out.\<close>
  "removeNode s this node =
     (if node \<in> set (children (nodes s this)) then
        (let s1 = upd s this (\<lambda>nd. nd\<lparr>children := remove1 node (children nd)\<rparr>);
             s2 = upd s1 node (\<lambda>nd. nd\<lparr>parent := None\<rparr>)
         in requestRedraw s2 this)
      else Some s)"

section \<open>Hit testing\<close>

definition isPointInShape :: "Node \<Rightarrow> real \<Rightarrow> real \<Rightarrow> bool" where
  "isPointInShape nd x y =
     (case kind nd of
        RectShape \<Rightarrow>
          0 \<le> x \<and> x \<le> numOr (props nd K_width) 100 \<and> 0 \<le> y \<and> y \<le> numOr (props nd K_height) 100
      | CircleShape \<Rightarrow>
          x * x + y * y \<le> numOr (props nd K_radius) 50 * numOr (props nd K_radius) 50
      | _ \<Rightarrow> False)"

definition nodeHitTest :: "Scene \<Rightarrow> nat \<Rightarrow> Point \<Rightarrow> nat option option" where
  \<comment> \<open>\<open>Node.hitTest\<close>; the inner option is the node or \<open>null\<close>.\<close>
  "nodeHitTest s this globalPoint =
     Option.bind (getGlobalBounds s this) (\<lambda>globalBounds.
       if 0 < width globalBounds \<and> 0 < height globalBounds \<and>
          (px globalPoint < rx globalBounds \<or>
           px globalPoint > rx globalBounds + width globalBounds \<or>
           py globalPoint < ry globalBounds \<or>
           py globalPoint > ry globalBounds + height globalBounds)
       then Some None
       else
         Option.bind (getGlobalTransform s this) (\<lambda>globalTransform.
           let localPoint = transformPoint (invert globalTransform) globalPoint in
           Some (if isPointInShape (nodes s this) (px localPoint) (py localPoint)
                 then Some this else None)))"

definition clipRejects :: "Node \<Rightarrow> Point \<Rightarrow> bool" where
  \<comment> \<open>The test of \<open>Container.hitTest\<close> on the point in the container's space.\<close>
  "clipRejects nd localPoint =
     (let clipX = numOr (props nd K_clipX) 0; clipY = numOr (props nd K_clipY) 0;
          clipWidth = numOr (props nd K_clipWidth) 100;
          clipHeight = numOr (props nd K_clipHeight) 100
      in px localPoint < clipX \<or> px localPoint > clipX + clipWidth \<or>
         py localPoint < clipY \<or> py localPoint > clipY + clipHeight)"

section \<open>Transformer.ts\<close>

fun indexOf :: "'a list \<Rightarrow> 'a \<Rightarrow> nat option" where
  \<comment> \<open>\<open>Array.prototype.indexOf\<close>; \<open>None\<close> is \<open>-1\<close>.\<close>
  "indexOf [] v = None"
| "indexOf (a # as) v = (if a = v then Some 0 else map_option Suc (indexOf as v))"

definition anchors :: "string list" where
  "anchors = [''top-left'', ''top-center'', ''top-right'', ''middle-right'',
              ''bottom-right'', ''bottom-center'', ''bottom-left'', ''middle-left'']"

definition cursors :: "string list" where
  "cursors = [''nw-resize'', ''n-resize'', ''ne-resize'', ''e-resize'',
              ''se-resize'', ''s-resize'', ''sw-resize'', ''w-resize'']"

definition getCursorForAnchor :: "Scene \<Rightarrow> nat \<Rightarrow> string \<Rightarrow> string option" where
  "getCursorForAnchor s this anchorName =
     (if anchorName = ''rotator'' then Some ''grab''
      else case indexOf anchors anchorName of
        None \<Rightarrow> Some ''default''
      | Some index \<Rightarrow>
          (case target (tstate (nodes s this)) of
             None \<Rightarrow> Some (cursors ! index)
           | Some t \<Rightarrow>
               Option.bind (getGlobalTransform s t) (\<lambda>m.
                 let rotation = drotation (decompose m);
                     steps = round_js (rotation / (pi / 4));
                     shiftedIndex = rem_js (int index + steps) 8;
                     finalIndex = rem_js (shiftedIndex + 8) 8
                 in Some (cursors ! nat finalIndex))))"

definition handles :: "Rect \<Rightarrow> (real \<times> real \<times> string) list" where
  "handles bounds =
     [(rx bounds, ry bounds, ''top-left''),
      (rx bounds + width bounds / 2, ry bounds, ''top-center''),
      (rx bounds + width bounds, ry bounds, ''top-right''),
      (rx bounds + width bounds, ry bounds + height bounds / 2, ''middle-right''),
      (rx bounds + width bounds, ry bounds + height bounds, ''bottom-right''),
      (rx bounds + width bounds / 2, ry bounds + height bounds, ''bottom-center''),
      (rx bounds, ry bounds + height bounds, ''bottom-left''),
      (rx bounds, ry bounds + height bounds / 2, ''middle-left'')]"

definition onHandle :: "Point \<Rightarrow> real \<Rightarrow> real \<times> real \<times> string \<Rightarrow> bool" where
  "onHandle localPoint half h =
     (fst h - half \<le> px localPoint \<and> px localPoint \<le> fst h + half \<and>
      fst (snd h) - half \<le> py localPoint \<and> py localPoint \<le> fst (snd h) + half)"

definition transformerHitTest :: "Scene \<Rightarrow> nat \<Rightarrow> Point \<Rightarrow> (nat option \<times> Scene) option" where
  \<comment> \<open>\<open>Transformer.hitTest\<close>: it records the anchor and the cursor in the transformer.\<close>
  "transformerHitTest s this globalPoint =
     (case target (tstate (nodes s this)) of
        None \<Rightarrow> Some (None, s)
      | Some t \<Rightarrow>
          Option.bind (getGlobalTransform s t) (\<lambda>targetGlobal.
          Option.bind (getSelfBounds s t) (\<lambda>bounds.
            let localPoint = transformPoint (invert targetGlobal) globalPoint;
                half = numOr (props (nodes s this) K_handleSize) 10 / 2
            in case find (onHandle localPoint half) (handles bounds) of
                 Some h \<Rightarrow>
                   (let s1 = upd s this
                               (\<lambda>nd. nd\<lparr>tstate := (tstate nd)\<lparr>activeAnchor := Some (snd (snd h))\<rparr>\<rparr>)
                    in Option.bind (getCursorForAnchor s1 this (snd (snd h))) (\<lambda>c.
                         Some (Some this, set_cursor s1 this c)))
               | None \<Rightarrow>
                   if onHandle localPoint half
                        (rx bounds + width bounds / 2, ry bounds - 30, ''rotator'')
                   then Some (Some this,
                          set_cursor
                            (upd s this
                               (\<lambda>nd. nd\<lparr>tstate := (tstate nd)\<lparr>activeAnchor := Some ''rotator''\<rparr>\<rparr>))
                            this ''grab'')
                   else Some (None, set_cursor s this ''default''))))"

datatype InteractionEvent = InteractionEvent (globalX: real) (globalY: real)

text \<open>
  Of an interaction event the handlers of the transformer read \<open>globalX\<close> and
  \<open>globalY\<close>; \<open>stopPropagation\<close> sets a flag of the event that no code reads.
\<close>

definition noAnchor :: "TransformerState \<Rightarrow> bool" where
  \<comment> \<open>\<open>!this.target || !this.activeAnchor\<close>.\<close>
  "noAnchor ts = (target ts = None \<or> activeAnchor ts = None \<or> activeAnchor ts = Some [])"

definition handleDragStart :: "Scene \<Rightarrow> nat \<Rightarrow> InteractionEvent \<Rightarrow> Scene" where
  "handleDragStart s this e =
     (case target (tstate (nodes s this)) of
        None \<Rightarrow> s
      | Some t \<Rightarrow>
          if noAnchor (tstate (nodes s this)) then s
          else upd s this (\<lambda>nd. nd\<lparr>tstate := (tstate nd)
                 \<lparr>startX := globalX e, startY := globalY e,
                  startWidth := numOr (props (nodes s t) K_width) 0,
                  startScaleX := scaleX (nodes s t), startScaleY := scaleY (nodes s t),
                  startRotation := rotation (nodes s t),
                  startXPos := node_x (nodes s t), startYPos := node_y (nodes s t)\<rparr>\<rparr>))"

definition handleDragMove :: "Scene \<Rightarrow> nat \<Rightarrow> InteractionEvent \<Rightarrow> Scene option" where
  "handleDragMove s this e =
     (let ts = tstate (nodes s this) in
      case target ts of
        None \<Rightarrow> Some s
      | Some t \<Rightarrow>
          if noAnchor ts then Some s
          else
            let dx = globalX e - startX ts; dy = globalY e - startY ts in
            if activeAnchor ts = Some ''bottom-right'' then
              Option.bind (getGlobalTransform s t) (\<lambda>globalTransform.
                let rotation = drotation (decompose globalTransform);
                    cos' = cos (- rotation);
                    sin' = sin (- rotation);
                    localDx = dx * cos' - dy * sin';
                    localDy = dx * sin' + dy * cos'
                in
                Option.bind (getSelfBounds s t) (\<lambda>bounds.
                Option.bind
                  (if 0 < width bounds
                   then set_scaleX s t
                          (max (1 / 10) ((width bounds * startScaleX ts + localDx) / width bounds))
                   else Some s) (\<lambda>s1.
                  if 0 < height bounds
                  then set_scaleY s1 t
                         (max (1 / 10) ((height bounds * startScaleY ts + localDy) / height bounds))
                  else Some s1)))
            else if activeAnchor ts = Some ''rotator'' then
              Option.bind (getGlobalBounds s t) (\<lambda>bounds.
                let cx = rx bounds + width bounds / 2;
                    cy = ry bounds + height bounds / 2;
                    angle = atan2 (globalY e - cy) (globalX e - cx)
                in set_rotation s t (angle + pi / 2))
            else Some s)"

definition handleDragEnd :: "Scene \<Rightarrow> nat \<Rightarrow> InteractionEvent \<Rightarrow> Scene" where
  "handleDragEnd s this e =
     upd s this (\<lambda>nd. nd\<lparr>tstate := (tstate nd)\<lparr>activeAnchor := None\<rparr>\<rparr>)"

subsection \<open>Hit testing by class\<close>

definition clipGate :: "Scene \<Rightarrow> nat \<Rightarrow> Point \<Rightarrow> bool option" where
  \<comment> \<open>The block \<open>if (this.props.clip)\<close> that opens \<open>Container.hitTest\<close>:
     whether it returns \<open>null\<close>.\<close>
  "clipGate s this globalPoint =
     (if truthy (props (nodes s this) K_clip)
      then Option.bind (getGlobalTransform s this) (\<lambda>globalTransform.
             Some (clipRejects (nodes s this)
                     (transformPoint (invert globalTransform) globalPoint)))
      else Some False)"

datatype hcall = HitTest nat | HitChildren "nat list"

text \<open>
  \<open>hitRun s (HitTest n) p\<close> is \<open>n.hitTest(p)\<close> with the method of the class of
  \<open>n\<close>; \<open>hitRun s (HitChildren ids) p\<close> is the loop of \<open>Container.hitTest\<close> over
  the children still to test, \<open>ids\<close>, top-most first.  No hit test changes a list of
  children, so the loop over the indices \<open>length - 1, ..., 0\<close> reads the children that
  the reversed list holds.  The result is the node hit (or \<open>null\<close>) and the store,
  which a transformer changes.
\<close>

partial_function (option) hitRun :: "Scene \<Rightarrow> hcall \<Rightarrow> Point \<Rightarrow> (nat option \<times> Scene) option" where
  "hitRun s call globalPoint =
     (case call of
        HitTest this \<Rightarrow>
          (case kind (nodes s this) of
             TransformerNode \<Rightarrow> transformerHitTest s this globalPoint
           | ContainerNode \<Rightarrow>
               Option.bind (clipGate s this globalPoint)
                 (\<lambda>rejected.
                    if rejected then Some (None, s)
                    else hitRun s (HitChildren (rev (children (nodes s this)))) globalPoint)
           | _ \<Rightarrow> Option.bind (nodeHitTest s this globalPoint) (\<lambda>r. Some (r, s)))
      | HitChildren ids \<Rightarrow>
          (case ids of
             [] \<Rightarrow> Some (None, s)
           | child # rest \<Rightarrow>
               Option.bind (hitRun s (HitTest child) globalPoint) (\<lambda>res.
                 case fst res of
                   Some hitNode \<Rightarrow> Some (Some hitNode, snd res)
                 | None \<Rightarrow> hitRun (snd res) (HitChildren rest) globalPoint)))"

definition hitTest :: "Scene \<Rightarrow> nat \<Rightarrow> Point \<Rightarrow> (nat option \<times> Scene) option" where
  "hitTest s this globalPoint = hitRun s (HitTest this) globalPoint"

section \<open>Rendering\<close>

text \<open>
  The drawing context is the list of the calls made on it.  \<open>DrawCall n\<close> stands for
  a call of the method \<open>draw\<close> of node \<open>n\<close> (with what a shape paints in it),
  \<open>DrawInterface\<close> for the border and handles that a transformer paints.
\<close>

datatype ctxop =
  Save | Restore | SetFilter string | SetShadow string real real real
  | Transform Matrix2D | ClipRect real real real real
  | DrawCall nat | DrawInterface nat Rect

definition isOutside :: "Rect \<Rightarrow> Rect \<Rightarrow> bool" where
  "isOutside bounds viewport =
     (rx bounds > rx viewport + width viewport \<or>
      rx bounds + width bounds < rx viewport \<or>
      ry bounds > ry viewport + height viewport \<or>
      ry bounds + height bounds < ry viewport)"

definition styleOps :: "Node \<Rightarrow> ctxop list" where
  "styleOps nd =
     (if truthy (props nd K_filter) then [SetFilter (strOr (props nd K_filter) [])] else []) @
     (if truthy (props nd K_shadowColor)
      then [SetShadow (strOr (props nd K_shadowColor) [])
              (numOr (props nd K_shadowBlur) 0)
              (numOr (props nd K_shadowOffsetX) 0)
              (numOr (props nd K_shadowOffsetY) 0)]
      else [])"

definition clipOps :: "Node \<Rightarrow> ctxop list" where
  "clipOps nd =
     (if truthy (props nd K_clip)
      then [ClipRect (numOr (props nd K_clipX) 0) (numOr (props nd K_clipY) 0)
              (numOr (props nd K_clipWidth) 100) (numOr (props nd K_clipHeight) 100)]
      else [])"

definition transformerRender :: "Scene \<Rightarrow> nat \<Rightarrow> ctxop list \<Rightarrow> ctxop list option" where
  \<comment> \<open>\<open>Transformer.render\<close>, which replaces \<open>Node.render\<close>: no culling, no call of
     \<open>draw\<close>.\<close>
  "transformerRender s this ctx =
     (case target (tstate (nodes s this)) of
        None \<Rightarrow> Some ctx
      | Some t \<Rightarrow>
          Option.bind (getGlobalTransform s t) (\<lambda>targetTransform.
          Option.bind
            (case parent (nodes s this) of
               None \<Rightarrow> Some targetTransform
             | Some p \<Rightarrow> Option.bind (getGlobalTransform s p) (\<lambda>parentGlobal.
                          Some (multiply (invert parentGlobal) targetTransform))) (\<lambda>matrix.
          Option.bind (getGlobalTransform s this) (\<lambda>myGlobal.
          Option.bind (getSelfBounds s t) (\<lambda>bounds.
            Some (ctx @ [Save, Transform (multiply (invert myGlobal) targetTransform),
                         DrawInterface this bounds, Restore]))))))"

datatype rcall = Render nat | Draw nat | RenderEach "nat list"

text \<open>
  \<open>renderRun s viewport (Render n) ctx\<close> is \<open>n.render(ctx, viewport)\<close>,
  \<open>renderRun s viewport (Draw n) ctx\<close> is \<open>n.draw(ctx, viewport)\<close>, and
  \<open>RenderEach ids\<close> is \<open>children.forEach(child => child.render(ctx, viewport))\<close> on
  the children still to render.
\<close>

partial_function (option) renderRun ::
  "Scene \<Rightarrow> Rect option \<Rightarrow> rcall \<Rightarrow> ctxop list \<Rightarrow> ctxop list option" where
  "renderRun s viewport call ctx =
     (case call of
        Render this \<Rightarrow>
          if kind (nodes s this) = TransformerNode then transformerRender s this ctx
          else
            Option.bind
              (case viewport of
                 None \<Rightarrow> Some False
               | Some vp \<Rightarrow>
                   Option.bind (getGlobalBounds s this) (\<lambda>bounds.
                     Some (0 < width bounds \<and> 0 < height bounds \<and> isOutside bounds vp)))
              (\<lambda>culled.
                 if culled then Some ctx
                 else
                   Option.bind
                     (renderRun s viewport (Draw this)
                        (ctx @ Save # styleOps (nodes s this) @
                           [Transform (getTransform (nodes s this))]))
                     (\<lambda>ctx'. Some (ctx' @ [Restore])))
      | Draw this \<Rightarrow>
          if isContainer (nodes s this)
          then renderRun s viewport (RenderEach (children (nodes s this)))
                 (ctx @ DrawCall this # clipOps (nodes s this))
          else Some (ctx @ [DrawCall this])
      | RenderEach ids \<Rightarrow>
          (case ids of
             [] \<Rightarrow> Some ctx
           | child # rest \<Rightarrow>
               Option.bind (renderRun s viewport (Render child) ctx) (\<lambda>ctx'.
                 renderRun s viewport (RenderEach rest) ctx')))"

definition render :: "Scene \<Rightarrow> nat \<Rightarrow> Rect option \<Rightarrow> ctxop list \<Rightarrow> ctxop list option" where
  "render s this viewport ctx = renderRun s viewport (Render this) ctx"

section \<open>Well-founded parent chains and example scenes\<close>

text \<open>
  \<open>chain N n ps\<close>: following the parent references from \<open>n\<close> visits the nodes
  \<open>ps\<close> (the parent first) and ends at a node without parent.
\<close>

inductive chain :: "(nat \<Rightarrow> Node) \<Rightarrow> nat \<Rightarrow> nat list \<Rightarrow> bool" where
  chain_root: "parent (N n) = None \<Longrightarrow> chain N n []"
| chain_step: "parent (N n) = Some p \<Longrightarrow> chain N p ps \<Longrightarrow> chain N n (p # ps)"

definition newState :: TransformerState where
  \<comment> \<open>The field initialisers of \<open>Transformer\<close>.\<close>
  "newState = \<lparr>target = None, activeAnchor = None, startX = 0, startY = 0, startWidth = 0,
               startHeight = 0, startScaleX = 1, startScaleY = 1, startRotation = 0,
               startXPos = 0, startYPos = 0\<rparr>"

definition newEvents :: "shape \<Rightarrow> CanvasEvents" where
  \<comment> \<open>\<open>updateEvents\<close> on no properties, and for a transformer the three handlers that
     its constructor binds afterwards.\<close>
  "newEvents k =
     \<lparr>onClick = None, onMouseEnter = None, onMouseLeave = None,
      onDragStart = (if k = TransformerNode then Some BoundDragStart else None),
      onDragMove = (if k = TransformerNode then Some BoundDragMove else None),
      onDragEnd = (if k = TransformerNode then Some BoundDragEnd else None)\<rparr>"

definition newNode :: "shape \<Rightarrow> Node" where
  \<comment> \<open>An object as its constructor leaves it when it is given no properties.\<close>
  "newNode k =
     \<lparr>node_x = 0, node_y = 0, rotation = 0, scaleX = 1, scaleY = 1, zIndex = 0,
      cursor = ''default'', draggable = (k = TransformerNode), parent = None,
      props = (if k = TransformerNode then [K_handleSize \<mapsto> Num 10] else Map.empty),
      kind = k, children = [], tstate = newState, events = newEvents k, imageObj = None\<rparr>"

definition sceneOf :: "(nat \<Rightarrow> Node) \<Rightarrow> Scene" where
  \<comment> \<open>A store with no redraw requested and no image loaded or loading.\<close>
  "sceneOf N = \<lparr>nodes = N, redraws = [], cache = Map.empty, pending = []\<rparr>"

fun drawsOf :: "ctxop list \<Rightarrow> nat list" where
  \<comment> \<open>The nodes whose \<open>draw\<close> was called, in the order of the calls.\<close>
  "drawsOf [] = []"
| "drawsOf (DrawCall n # ops) = n # drawsOf ops"
| "drawsOf (_ # ops) = drawsOf ops"

definition exampleNested :: Scene where
  \<comment> \<open>A container at \<open>(10,10)\<close> holding a 20 by 20 rectangle at \<open>(5,5)\<close>.\<close>
  "exampleNested = sceneOf ((\<lambda>_. newNode BaseNode)
     (0 := (newNode ContainerNode)\<lparr>node_x := 10, node_y := 10, children := [1]\<rparr>,
      1 := (newNode RectShape)\<lparr>node_x := 5, node_y := 5, parent := Some 0,
             props := [K_width \<mapsto> Num 20, K_height \<mapsto> Num 20]\<rparr>))"

definition exampleCulled :: Scene where
  \<comment> \<open>Container 0 at \<open>(-500,0)\<close> and container 1 at the origin both list the 50 by 50
     rectangle 2, as after \<open>c0.add(r); c1.add(r)\<close>; the parent of 2 is 1.\<close>
  "exampleCulled = sceneOf ((\<lambda>_. newNode BaseNode)
     (0 := (newNode ContainerNode)\<lparr>node_x := - 500, children := [2]\<rparr>,
      1 := (newNode ContainerNode)\<lparr>children := [2]\<rparr>,
      2 := (newNode RectShape)\<lparr>parent := Some 1,
             props := [K_width \<mapsto> Num 50, K_height \<mapsto> Num 50]\<rparr>))"

definition exampleClip :: Scene where
  \<comment> \<open>A container with \<open>clip = true\<close> and clip rectangle \<open>{0,0,50,50}\<close> holding a
     10 by 10 rectangle at \<open>(60,60)\<close>.\<close>
  "exampleClip = sceneOf ((\<lambda>_. newNode BaseNode)
     (0 := (newNode ContainerNode)\<lparr>children := [1],
             props := [K_clip \<mapsto> Flag True, K_clipX \<mapsto> Num 0, K_clipY \<mapsto> Num 0,
                       K_clipWidth \<mapsto> Num 50, K_clipHeight \<mapsto> Num 50]\<rparr>,
      1 := (newNode RectShape)\<lparr>node_x := 60, node_y := 60, parent := Some 0,
             props := [K_width \<mapsto> Num 10, K_height \<mapsto> Num 10]\<rparr>))"


definition exampleZ :: Scene where
  \<comment> \<open>A container holding three rectangles: node 1 with z-index 10, node 2 with
     z-index 5, node 3 with z-index 20.\<close>
  "exampleZ = sceneOf ((\<lambda>_. newNode BaseNode)
     (0 := (newNode ContainerNode)\<lparr>children := [2, 1, 3]\<rparr>,
      1 := (newNode RectShape)\<lparr>zIndex := 10, parent := Some 0\<rparr>,
      2 := (newNode RectShape)\<lparr>zIndex := 5, parent := Some 0\<rparr>,
      3 := (newNode RectShape)\<lparr>zIndex := 20, parent := Some 0\<rparr>))"

definition anchored :: "Scene \<Rightarrow> nat \<Rightarrow> string \<Rightarrow> string \<Rightarrow> Scene" where
  \<comment> \<open>The store after a hit test of transformer \<open>t\<close> has found the anchor \<open>a\<close>
     and chosen the cursor \<open>c\<close>.\<close>
  "anchored s t a c =
     set_cursor (upd s t (\<lambda>nd. nd\<lparr>tstate := (tstate nd)\<lparr>activeAnchor := Some a\<rparr>\<rparr>)) t c"

definition exampleGizmo :: Scene where
  \<comment> \<open>A 100 by 100 rectangle at \<open>(100,100)\<close> (node 0) and a transformer bound to it
     (node 1), neither of them in a container.\<close>
  "exampleGizmo = sceneOf ((\<lambda>_. newNode BaseNode)
     (0 := (newNode RectShape)\<lparr>node_x := 100, node_y := 100,
             props := [K_width \<mapsto> Num 100, K_height \<mapsto> Num 100]\<rparr>,
      1 := (newNode TransformerNode)\<lparr>tstate := newState\<lparr>target := Some 0\<rparr>\<rparr>))"

definition exampleTopLeft :: Scene where
  \<comment> \<open>After the hit test at \<open>(100,100)\<close> and \<open>dragStart\<close> there.\<close>
  "exampleTopLeft =
     handleDragStart (anchored exampleGizmo 1 ''top-left'' ''nw-resize'') 1
       (InteractionEvent 100 100)"

definition exampleBottomRight :: Scene where
  \<comment> \<open>After the hit test at \<open>(200,200)\<close> and \<open>dragStart\<close> there.\<close>
  "exampleBottomRight =
     handleDragStart (anchored exampleGizmo 1 ''bottom-right'' ''se-resize'') 1
       (InteractionEvent 200 200)"

definition exampleRotator :: Scene where
  \<comment> \<open>After the hit test at \<open>(150,70)\<close> and \<open>dragStart\<close> there.\<close>
  "exampleRotator =
     handleDragStart (anchored exampleGizmo 1 ''rotator'' ''grab'') 1
       (InteractionEvent 150 70)"

section \<open>Predicates of the specification\<close>

text \<open>
  \<open>sharesNoPoint\<close>: two rectangles have no point in common.
  \<open>sortedTree\<close>: every container lists its children in ascending z-index, lists
  each child once, and is the parent of each child it lists.  \<open>sameTree\<close>: two
  stores agree on children, z-indices, parents and classes.  \<open>fieldCurrent\<close>: a
  supplied field equals the current value of the node.
\<close>

definition sharesNoPoint :: "Rect \<Rightarrow> Rect \<Rightarrow> bool" where
  \<comment> \<open>In the words of the specification, a box ``lies entirely outside'' a viewport:
     no point belongs to both rectangles, edges included.\<close>
  "sharesNoPoint b vp =
     (\<not> (\<exists>x y. rx b \<le> x \<and> x \<le> rx b + width b \<and> ry b \<le> y \<and> y \<le> ry b + height b \<and>
               rx vp \<le> x \<and> x \<le> rx vp + width vp \<and> ry vp \<le> y \<and> y \<le> ry vp + height vp))"

definition sortedTree :: "Scene \<Rightarrow> bool" where
  "sortedTree s =
     (\<forall>c. isContainer (nodes s c) \<longrightarrow>
        sorted (map (\<lambda>i. zIndex (nodes s i)) (children (nodes s c))) \<and>
        distinct (children (nodes s c)) \<and>
        (\<forall>i \<in> set (children (nodes s c)). parent (nodes s i) = Some c))"

definition sameTree :: "Scene \<Rightarrow> Scene \<Rightarrow> bool" where
  "sameTree s s' =
     (\<forall>i. children (nodes s' i) = children (nodes s i) \<and>
          zIndex (nodes s' i) = zIndex (nodes s i) \<and>
          parent (nodes s' i) = parent (nodes s i) \<and>
          kind (nodes s' i) = kind (nodes s i))"

fun fieldCurrent :: "Node \<Rightarrow> field \<Rightarrow> bool" where
  "fieldCurrent nd (F_x v) = (node_x nd = v)"
| "fieldCurrent nd (F_y v) = (node_y nd = v)"
| "fieldCurrent nd (F_rotation v) = (rotation nd = v)"
| "fieldCurrent nd (F_scaleX v) = (scaleX nd = v)"
| "fieldCurrent nd (F_scaleY v) = (scaleY nd = v)"
| "fieldCurrent nd (F_zIndex v) = (zIndex nd = v)"
| "fieldCurrent nd (F_draggable b) = (draggable nd = b)"
| "fieldCurrent nd (F_cursor c) = (cursor nd = c)"
| "fieldCurrent nd (F_other k v) = (props nd k = Some v)"

section \<open>Further notions of the specification\<close>

subsection \<open>Culling and paint order\<close>

definition culled :: "Scene \<Rightarrow> Rect option \<Rightarrow> nat \<Rightarrow> bool option" where
  \<comment> \<open>The test that opens \<open>Node.render\<close>: whether the node is skipped.\<close>
  "culled s viewport this =
     (case viewport of
        None \<Rightarrow> Some False
      | Some vp \<Rightarrow>
          Option.bind (getGlobalBounds s this) (\<lambda>bounds.
            Some (0 < width bounds \<and> 0 < height bounds \<and> isOutside bounds vp)))"

text \<open>
  \<open>paintOrder s viewport n ds\<close>: the paint order of the specification for the
  subtree of \<open>n\<close>.  A node that is culled paints nothing; a shape paints itself; a
  container paints itself and then its children, one after the other in the order of
  its child list, each with its own subtree; a transformer paints its border and
  handles, outside \<open>draw\<close>.
\<close>

inductive paintOrder :: "Scene \<Rightarrow> Rect option \<Rightarrow> nat \<Rightarrow> nat list \<Rightarrow> bool"
  and paintOrderEach :: "Scene \<Rightarrow> Rect option \<Rightarrow> nat list \<Rightarrow> nat list \<Rightarrow> bool" where
  po_transformer:
    "kind (nodes s n) = TransformerNode \<Longrightarrow> transformerRender s n [] = Some ops \<Longrightarrow>
       paintOrder s viewport n []"
| po_culled:
    "kind (nodes s n) \<noteq> TransformerNode \<Longrightarrow> culled s viewport n = Some True \<Longrightarrow>
       paintOrder s viewport n []"
| po_shape:
    "\<not> isContainer (nodes s n) \<Longrightarrow> culled s viewport n = Some False \<Longrightarrow>
       paintOrder s viewport n [n]"
| po_container:
    "kind (nodes s n) = ContainerNode \<Longrightarrow> culled s viewport n = Some False \<Longrightarrow>
       paintOrderEach s viewport (children (nodes s n)) ds \<Longrightarrow>
       paintOrder s viewport n (n # ds)"
| po_nil: "paintOrderEach s viewport [] []"
| po_cons:
    "paintOrder s viewport i d \<Longrightarrow> paintOrderEach s viewport ids ds \<Longrightarrow>
       paintOrderEach s viewport (i # ids) (d @ ds)"
subsection \<open>Clients of the engine\<close>

text \<open>
  A client of the engine: a sequence of calls \<open>c.add(n)\<close>, \<open>c.remove(n)\<close>,
  \<open>n.setProps(partial)\<close> and \<open>n.zIndex = z\<close>, performed one after the other.
\<close>

datatype call =
  Add nat nat | Remove nat nat | SetProps nat "field list" | SetZIndex nat real

fun perform :: "Scene \<Rightarrow> call \<Rightarrow> Scene option" where
  "perform s (Add c n) = add s c n"
| "perform s (Remove c n) = removeNode s c n"
| "perform s (SetProps n flds) = setProps s n flds"
| "perform s (SetZIndex n z) = set_zIndex s n z"

fun performAll :: "Scene \<Rightarrow> call list \<Rightarrow> Scene option" where
  "performAll s [] = Some s"
| "performAll s (cl # cls) = Option.bind (perform s cl) (\<lambda>s'. performAll s' cls)"

definition zOrder :: "nat \<Rightarrow> Scene \<Rightarrow> real list" where
  \<comment> \<open>The z-indices of the children of \<open>c\<close>, in the order of its child list.\<close>
  "zOrder c s = map (\<lambda>i. zIndex (nodes s i)) (children (nodes s c))"

definition wellFormed :: "Scene \<Rightarrow> call \<Rightarrow> bool" where
  \<comment> \<open>The receiver of \<open>add\<close> and \<open>remove\<close> is a container, and \<open>add\<close> is given a
     node that no container lists.\<close>
  "wellFormed s cl =
     (case cl of
        Add c n \<Rightarrow> isContainer (nodes s c) \<and>
                   (\<forall>d. isContainer (nodes s d) \<longrightarrow> n \<notin> set (children (nodes s d)))
      | Remove c n \<Rightarrow> isContainer (nodes s c)
      | _ \<Rightarrow> True)"

fun disciplined :: "Scene \<Rightarrow> call list \<Rightarrow> bool" where
  \<comment> \<open>Every call of the sequence is well formed in the store it is performed in.\<close>
  "disciplined s [] = True"
| "disciplined s (cl # cls) =
     (wellFormed s cl \<and>
      (case perform s cl of None \<Rightarrow> True | Some s' \<Rightarrow> disciplined s' cls))"
subsection \<open>A run of misses\<close>

subsection \<open>Further example scenes\<close>

definition exampleTwo :: Scene where
  \<comment> \<open>Two new containers (nodes 0 and 1) and two new rectangles: node 2 with z-index 0
     and node 3 with z-index 10.\<close>
  "exampleTwo = sceneOf ((\<lambda>_. newNode BaseNode)
     (0 := newNode ContainerNode, 1 := newNode ContainerNode,
      2 := newNode RectShape, 3 := (newNode RectShape)\<lparr>zIndex := 10\<rparr>))"

definition exampleDeep :: Scene where
  \<comment> \<open>A container (node 0) holding a container (node 1, with the 50 by 50 rectangle 3
     at the origin) and the 50 by 50 rectangle 2 at \<open>(2000,0)\<close>.\<close>
  "exampleDeep = sceneOf ((\<lambda>_. newNode BaseNode)
     (0 := (newNode ContainerNode)\<lparr>children := [1, 2]\<rparr>,
      1 := (newNode ContainerNode)\<lparr>zIndex := 1, parent := Some 0, children := [3]\<rparr>,
      2 := (newNode RectShape)\<lparr>node_x := 2000, zIndex := 2, parent := Some 0,
             props := [K_width \<mapsto> Num 50, K_height \<mapsto> Num 50]\<rparr>,
      3 := (newNode RectShape)\<lparr>parent := Some 1,
             props := [K_width \<mapsto> Num 50, K_height \<mapsto> Num 50]\<rparr>))"


definition exampleImage :: Scene where
  \<comment> \<open>A container holding an image (node 1) whose \<open>src\<close> is \<open>a.png\<close>; the asset
     manager has that image in its cache.\<close>
  "exampleImage = (sceneOf ((\<lambda>_. newNode BaseNode)
     (0 := (newNode ContainerNode)\<lparr>children := [1]\<rparr>,
      1 := (newNode ImageShape)\<lparr>parent := Some 0, props := [K_src \<mapsto> Str ''a.png'']\<rparr>)))
     \<lparr>cache := [''a.png'' \<mapsto> Img 7 64 32]\<rparr>"

definition exampleThin :: Scene where
  \<comment> \<open>A rectangle of width 0 and height 100 at \<open>(100,100)\<close> (node 0) and a
     transformer bound to it (node 1).\<close>
  "exampleThin = sceneOf ((\<lambda>_. newNode BaseNode)
     (0 := (newNode RectShape)\<lparr>node_x := 100, node_y := 100,
             props := [K_width \<mapsto> Num 0, K_height \<mapsto> Num 100]\<rparr>,
      1 := (newNode TransformerNode)\<lparr>tstate := newState\<lparr>target := Some 0\<rparr>\<rparr>))"

section \<open>The algebra of transforms\<close>


lemma invert_singular:
  assumes "ma M * md M - mb M * mc M = 0"
  shows "invert M = Matrix2D 1 0 0 1 0 0"
  using assms by (simp add: invert_def)


lemma transformPoint_multiply:
  "transformPoint (multiply A B) p = transformPoint A (transformPoint B p)"
  by (simp add: transformPoint_def multiply_def algebra_simps)



section \<open>Transforms in double arithmetic\<close>


lemma roundEven_int [simp]: "roundEven (of_int j) = j"
  by (simp add: roundEven_def)


lemma exponent_neg [simp]: "exponent (- x) = exponent x"
  by (simp add: exponent_def)


lemma ulp_pos [simp]: "0 < ulp e"
  by (simp add: ulp_def)

lemma rnd_int:
  assumes "\<bar>m\<bar> < 2 ^ 53"
  shows "rnd (of_int m) = Fin (of_int m)"
proof (cases "m = 0")
  case True
  then show ?thesis by (simp add: rnd_def)
next
  case False
  define x :: real where "x = of_int m"
  define k where "k = \<lfloor>log 2 \<bar>x\<bar>\<rfloor>"
  have x1: "1 \<le> \<bar>x\<bar>" using False by (simp add: x_def)
  have x53: "\<bar>x\<bar> < 2 ^ 53"
  proof -
    have "real_of_int \<bar>m\<bar> < real_of_int (2 ^ 53)" using assms by (simp only: of_int_less_iff)
    then show ?thesis by (simp add: x_def)
  qed
  have k: "2 powr (of_int k) \<le> \<bar>x\<bar>" "\<bar>x\<bar> < 2 powr (of_int k + 1)"
    using x1 floor_log_eq_powr_iff [of "\<bar>x\<bar>" 2 k] by (simp_all add: k_def)
  have k0: "0 \<le> k" using x1 by (simp add: k_def)
  have "(2::real) ^ 53 = 2 powr 53" by simp
  then have "2 powr (of_int k) < (2::real) powr 53" using k(1) x53 by linarith
  then have "real_of_int k < 53" by (rule powr_less_cancel) simp
  then have k52: "k \<le> 52" by simp
  have ex: "exponent x = k" using k0 by (simp add: exponent_def k_def)
  have q: "ulp k = 1 / 2 ^ nat (52 - k)"
    using k52 by (cases "k = 52") (simp_all add: ulp_def)
  have "x / ulp k = of_int (m * 2 ^ nat (52 - k))"
    by (simp add: q x_def)
  then have "roundEven (x / ulp k) = m * 2 ^ nat (52 - k)"
    by (simp only: roundEven_int)
  then have y: "ulp k * of_int (roundEven (x / ulp k)) = x"
    by (simp add: q x_def)
  have "(2::real) ^ 53 \<le> 2 ^ 1024"
    by (rule power_increasing) simp_all
  then have "\<bar>x\<bar> < 2 ^ 1024"
    using x53 by linarith
  then show ?thesis
    using False y ex by (simp add: rnd_def Let_def x_def [symmetric])
qed

lemma rnd_0 [simp]: "rnd 0 = Fin 0"
  by (simp add: rnd_def)

lemma rnd_1 [simp]: "rnd 1 = Fin 1"
  using rnd_int [of 1] by simp


lemma rnd_neg_numeral:
  "numeral w < (2::int) ^ 53 \<Longrightarrow> rnd (- numeral w) = Fin (- numeral w)"
  using rnd_int [of "- numeral w"] by simp





























section \<open>Walking the parent chain\<close>

lemma globalLoop_None [simp]: "globalLoop s m None = Some m"
  by (subst globalLoop.simps) simp

lemma globalLoop_Some [simp]:
  "globalLoop s m (Some p) =
     globalLoop s (multiply (getTransform (nodes s p)) m) (parent (nodes s p))"
  by (subst globalLoop.simps) simp

lemma requestRedraw_root:
  "parent (nodes s n) = None \<Longrightarrow> requestRedraw s n = Some (s\<lparr>redraws := redraws s @ [n]\<rparr>)"
  by (subst requestRedraw.simps) simp

lemma requestRedraw_step:
  "parent (nodes s n) = Some p \<Longrightarrow>
     requestRedraw s n = requestRedraw (s\<lparr>redraws := redraws s @ [n]\<rparr>) p"
  by (subst requestRedraw.simps) simp

lemma globalLoop_chain:
  "chain N n ps \<Longrightarrow> nodes s = N \<Longrightarrow>
     globalLoop s m (parent (N n)) =
       Some (foldr (\<lambda>p acc. multiply (getTransform (N p)) acc) (rev ps) m)"
proof (induction arbitrary: m rule: chain.induct)
  case (chain_root N n)
  then show ?case by simp
next
  case (chain_step N n p ps)
  then show ?case by simp
qed

lemma getGlobalTransform_chain:
  "chain (nodes s) n ps \<Longrightarrow>
     getGlobalTransform s n =
       Some (foldr (\<lambda>p acc. multiply (getTransform (nodes s p)) acc) (rev ps)
               (getTransform (nodes s n)))"
  by (simp add: getGlobalTransform_def globalLoop_chain)

lemma requestRedraw_chain:
  "chain N n ps \<Longrightarrow> nodes s = N \<Longrightarrow>
     requestRedraw s n = Some (s\<lparr>redraws := redraws s @ n # ps\<rparr>)"
proof (induction arbitrary: s rule: chain.induct)
  case (chain_root N n)
  then show ?case by (simp add: requestRedraw_root)
next
  case (chain_step N n p ps)
  have "requestRedraw s n = requestRedraw (s\<lparr>redraws := redraws s @ [n]\<rparr>) p"
    using chain_step.hyps(1) chain_step.prems by (simp add: requestRedraw_step)
  also have "\<dots> = Some (s\<lparr>redraws := redraws s @ [n]\<rparr>\<lparr>redraws := (redraws s @ [n]) @ p # ps\<rparr>)"
    using chain_step.IH [of "s\<lparr>redraws := redraws s @ [n]\<rparr>"] chain_step.prems by simp
  finally show ?case by simp
qed

lemma transformPoint_foldr:
  "transformPoint (foldr (\<lambda>p acc. multiply (T p) acc) qs m) pt =
     foldr (\<lambda>p acc. transformPoint (T p) acc) qs (transformPoint m pt)"
  by (induction qs) (simp_all add: transformPoint_multiply)

section \<open>Global transform and global bounds\<close>

lemma translate_identity: "translate identity x y = Matrix2D 1 0 0 1 x y"
  by (simp add: translate_def identity_def multiply_def)

lemma boundsOf_translate:
  "0 \<le> w \<Longrightarrow> 0 \<le> h \<Longrightarrow>
     boundsOf (Matrix2D 1 0 0 1 tx ty) (Rect x y w h) = Rect (x + tx) (y + ty) w h"
  by (simp add: boundsOf_def Let_def transformPoint_def min4_def max4_def min_def max_def)

text \<open>
  Claim C2.  \<open>getGlobalTransform\<close> composes the local transforms along the parent
  chain in root-to-node order: when the chain of \<open>n\<close> is \<open>ps\<close> (parent first, root
  last), the global transform is the product of the local transforms of \<open>rev ps\<close>
  (root first) and of \<open>n\<close>, and it maps a point by applying the local transform of
  \<open>n\<close> first and that of the root last.  For a node whose local transform is
  \<open>translate(5,5)\<close> and whose parent is a root with local transform
  \<open>translate(10,10)\<close>, the global transform is \<open>translate(15,15)\<close>, and with
  self-bounds \<open>{0,0,20,20}\<close> the global bounds are \<open>{15,15,20,20}\<close>.
\<close>

theorem getGlobalTransform_composes:
  "(chain (nodes s) n ps \<longrightarrow>
      getGlobalTransform s n =
        Some (foldr (\<lambda>p acc. multiply (getTransform (nodes s p)) acc) (rev ps)
                (getTransform (nodes s n))) \<and>
      map_option (\<lambda>g. transformPoint g pt) (getGlobalTransform s n) =
        Some (foldr (\<lambda>p acc. transformPoint (getTransform (nodes s p)) acc) (rev ps)
                (transformPoint (getTransform (nodes s n)) pt))) \<and>
   (getTransform (nodes s n) = translate identity 5 5 \<and> parent (nodes s n) = Some p \<and>
    getTransform (nodes s p) = translate identity 10 10 \<and> parent (nodes s p) = None \<longrightarrow>
      getGlobalTransform s n = Some (translate identity 15 15) \<and>
      (getSelfBounds s n = Some (Rect 0 0 20 20) \<longrightarrow>
         getGlobalBounds s n = Some (Rect 15 15 20 20)))"
proof (intro conjI impI)
  assume c: "chain (nodes s) n ps"
  show "getGlobalTransform s n =
        Some (foldr (\<lambda>p acc. multiply (getTransform (nodes s p)) acc) (rev ps)
                (getTransform (nodes s n)))"
    using c by (rule getGlobalTransform_chain)
  then show "map_option (\<lambda>g. transformPoint g pt) (getGlobalTransform s n) =
        Some (foldr (\<lambda>p acc. transformPoint (getTransform (nodes s p)) acc) (rev ps)
                (transformPoint (getTransform (nodes s n)) pt))"
    by (simp add: transformPoint_foldr)
next
  assume h: "getTransform (nodes s n) = translate identity 5 5 \<and> parent (nodes s n) = Some p \<and>
    getTransform (nodes s p) = translate identity 10 10 \<and> parent (nodes s p) = None"
  then show g: "getGlobalTransform s n = Some (translate identity 15 15)"
    by (simp add: getGlobalTransform_def translate_identity multiply_def)
  assume "getSelfBounds s n = Some (Rect 0 0 20 20)"
  then show "getGlobalBounds s n = Some (Rect 15 15 20 20)"
    using g by (simp add: getGlobalBounds_def translate_identity boundsOf_translate)
qed

lemma exampleNested_chain: "chain (nodes exampleNested) 1 [0]"
  by (intro chain.intros) (simp_all add: exampleNested_def sceneOf_def newNode_def)

lemma getTransform_plain:
  "rotation nd = 0 \<Longrightarrow> scaleX nd = 1 \<Longrightarrow> scaleY nd = 1 \<Longrightarrow>
     getTransform nd = Matrix2D 1 0 0 1 (node_x nd) (node_y nd)"
  by (simp add: getTransform_def translate_def rotateM_def scaleM_def multiply_def)

theorem getGlobalTransform_composes_witness:
  "getGlobalTransform exampleNested 1 =
     Some (multiply (getTransform (nodes exampleNested 0)) (getTransform (nodes exampleNested 1))) \<and>
   getGlobalTransform exampleNested 1 = Some (translate identity 15 15) \<and>
   getGlobalBounds exampleNested 1 = Some (Rect 15 15 20 20)"
proof -
  have t1: "getTransform (nodes exampleNested 1) = translate identity 5 5"
    by (simp add: exampleNested_def sceneOf_def newNode_def getTransform_plain translate_identity)
  have t0: "getTransform (nodes exampleNested 0) = translate identity 10 10"
    by (simp add: exampleNested_def sceneOf_def newNode_def getTransform_plain translate_identity)
  have p1: "parent (nodes exampleNested 1) = Some 0" and p0: "parent (nodes exampleNested 0) = None"
    by (simp_all add: exampleNested_def sceneOf_def newNode_def)
  have sb: "getSelfBounds exampleNested 1 = Some (Rect 0 0 20 20)"
    by (simp add: getSelfBounds_def isContainer_def shapeBounds_def numOr_def
        exampleNested_def sceneOf_def newNode_def)
  show ?thesis
    using getGlobalTransform_composes [of exampleNested 1 "[0]" "Point 0 0" 0]
      exampleNested_chain t1 t0 p1 p0 sb
    by (simp add: translate_identity multiply_def)
qed

section \<open>Rendering: the equations of the methods\<close>

lemma aggregate_Nil [simp]: "aggregate s [] acc = Some acc"
  by (subst aggregate.simps) simp

lemma aggregate_Cons:
  "aggregate s (c # rest) acc =
     Option.bind (getSelfBounds s c) (\<lambda>childBounds.
       aggregate s rest (Some (extend acc (getTransform (nodes s c)) childBounds)))"
  by (subst aggregate.simps) (simp add: getSelfBounds_def)

lemma aggregate_Some: "aggregate s ids (Some e) \<noteq> Some None"
proof (induction ids arbitrary: e)
  case Nil
  show ?case by simp
next
  case (Cons c rest)
  show ?case
    by (cases "getSelfBounds s c") (simp_all add: aggregate_Cons Cons.IH)
qed

lemma aggregate_nonempty: "ids \<noteq> [] \<Longrightarrow> aggregate s ids acc \<noteq> Some None"
  by (cases ids; cases "getSelfBounds s (hd ids)") (simp_all add: aggregate_Cons aggregate_Some)

lemma render_transformer:
  "kind (nodes s n) = TransformerNode \<Longrightarrow> render s n viewport ctx = transformerRender s n ctx"
  unfolding render_def by (subst renderRun.simps) simp

lemma render_unculled:
  "kind (nodes s n) \<noteq> TransformerNode \<Longrightarrow>
     render s n None ctx =
       Option.bind
         (renderRun s None (Draw n)
            (ctx @ Save # styleOps (nodes s n) @ [Transform (getTransform (nodes s n))]))
         (\<lambda>ctx'. Some (ctx' @ [Restore]))"
  unfolding render_def by (subst renderRun.simps) simp

lemma render_viewport:
  "kind (nodes s n) \<noteq> TransformerNode \<Longrightarrow> getGlobalBounds s n = Some b \<Longrightarrow>
     render s n (Some vp) ctx =
       (if 0 < width b \<and> 0 < height b \<and> isOutside b vp then Some ctx
        else Option.bind
               (renderRun s (Some vp) (Draw n)
                  (ctx @ Save # styleOps (nodes s n) @ [Transform (getTransform (nodes s n))]))
               (\<lambda>ctx'. Some (ctx' @ [Restore])))"
  unfolding render_def by (subst renderRun.simps) simp

lemma draw_shape:
  "\<not> isContainer (nodes s n) \<Longrightarrow> renderRun s viewport (Draw n) ctx = Some (ctx @ [DrawCall n])"
  by (subst renderRun.simps) simp

lemma draw_container:
  "isContainer (nodes s n) \<Longrightarrow>
     renderRun s viewport (Draw n) ctx =
       renderRun s viewport (RenderEach (children (nodes s n)))
         (ctx @ DrawCall n # clipOps (nodes s n))"
  by (subst renderRun.simps) simp

lemma renderEach_Nil [simp]: "renderRun s viewport (RenderEach []) ctx = Some ctx"
  by (subst renderRun.simps) simp

lemma renderEach_Cons:
  "renderRun s viewport (RenderEach (c # rest)) ctx =
     Option.bind (render s c viewport ctx) (\<lambda>ctx'. renderRun s viewport (RenderEach rest) ctx')"
  unfolding render_def by (subst renderRun.simps) simp

lemma drawsOf_append [simp]: "drawsOf (xs @ ys) = drawsOf xs @ drawsOf ys"
  by (induction xs rule: drawsOf.induct) simp_all

lemma transformerRender_draws:
  "transformerRender s n ctx = Some ctx' \<Longrightarrow> drawsOf ctx' = drawsOf ctx"
  by (auto simp: transformerRender_def split: option.splits bind_splits)

section \<open>Viewport culling\<close>

lemma isOutside_sharesNoPoint:
  assumes "0 \<le> width b" "0 \<le> height b" "0 \<le> width vp" "0 \<le> height vp"
  shows "isOutside b vp \<longleftrightarrow> sharesNoPoint b vp"
proof
  assume "isOutside b vp"
  then show "sharesNoPoint b vp"
    unfolding isOutside_def sharesNoPoint_def by auto
next
  assume d: "sharesNoPoint b vp"
  show "isOutside b vp"
  proof (rule ccontr)
    assume "\<not> isOutside b vp"
    then have o: "rx b \<le> rx vp + width vp" "rx vp \<le> rx b + width b"
      "ry b \<le> ry vp + height vp" "ry vp \<le> ry b + height b"
      by (auto simp: isOutside_def)
    define x where "x = max (rx b) (rx vp)"
    define y where "y = max (ry b) (ry vp)"
    have "rx b \<le> x \<and> x \<le> rx b + width b \<and> ry b \<le> y \<and> y \<le> ry b + height b \<and>
          rx vp \<le> x \<and> x \<le> rx vp + width vp \<and> ry vp \<le> y \<and> y \<le> ry vp + height vp"
      using o assms by (auto simp: x_def y_def max_def)
    then show False using d unfolding sharesNoPoint_def by blast
  qed
qed

text \<open>
  Claim C3.  When \<open>render\<close> is given a viewport and the global bounds of the node
  have positive width and height and lie outside the viewport, \<open>Node.render\<close> returns
  with the drawing context as it was: neither the \<open>draw\<close> of the node nor, for a
  container, the \<open>render\<close> of any child is called, whatever the bounds of the
  descendants are.  (A transformer replaces \<open>Node.render\<close>; it never calls
  \<open>draw\<close>.)  The test of the source, \<open>isOutside\<close>, holds exactly when the box and
  the viewport share no point.
\<close>

theorem render_culls:
  "(0 \<le> width b \<and> 0 \<le> height b \<and> 0 \<le> width vp \<and> 0 \<le> height vp \<longrightarrow>
      isOutside b vp = sharesNoPoint b vp) \<and>
   (getGlobalBounds s n = Some b \<and> 0 < width b \<and> 0 < height b \<and> isOutside b vp \<longrightarrow>
     (kind (nodes s n) \<noteq> TransformerNode \<longrightarrow> render s n (Some vp) ctx = Some ctx) \<and>
     (\<forall>ctx'. render s n (Some vp) ctx = Some ctx' \<longrightarrow> drawsOf ctx' = drawsOf ctx))"
proof (rule conjI; rule impI)
  assume "0 \<le> width b \<and> 0 \<le> height b \<and> 0 \<le> width vp \<and> 0 \<le> height vp"
  then show "isOutside b vp = sharesNoPoint b vp"
    by (simp add: isOutside_sharesNoPoint)
next
  assume h: "getGlobalBounds s n = Some b \<and> 0 < width b \<and> 0 < height b \<and> isOutside b vp"
  show "(kind (nodes s n) \<noteq> TransformerNode \<longrightarrow> render s n (Some vp) ctx = Some ctx) \<and>
     (\<forall>ctx'. render s n (Some vp) ctx = Some ctx' \<longrightarrow> drawsOf ctx' = drawsOf ctx)"
  proof (cases "kind (nodes s n) = TransformerNode")
    case True
    then show ?thesis
      by (auto simp: render_transformer dest: transformerRender_draws)
  next
    case False
    then have "render s n (Some vp) ctx = Some ctx"
      using h by (simp add: render_viewport)
    then show ?thesis by simp
  qed
qed

lemma exampleCulled_bounds:
  "getGlobalBounds exampleCulled 0 = Some (Rect (- 500) 0 50 50)"
proof -
  have t0: "getTransform (nodes exampleCulled 0) = Matrix2D 1 0 0 1 (- 500) 0"
    and t2: "getTransform (nodes exampleCulled 2) = Matrix2D 1 0 0 1 0 0"
    by (simp_all add: exampleCulled_def sceneOf_def newNode_def getTransform_plain)
  have sb2: "getSelfBounds exampleCulled 2 = Some (Rect 0 0 50 50)"
    by (simp add: getSelfBounds_def isContainer_def shapeBounds_def numOr_def
        exampleCulled_def sceneOf_def newNode_def)
  have ch: "children (nodes exampleCulled 0) = [2]" "isContainer (nodes exampleCulled 0)"
    "parent (nodes exampleCulled 0) = None"
    by (simp_all add: exampleCulled_def sceneOf_def newNode_def isContainer_def)
  have "extend None (Matrix2D 1 0 0 1 0 0) (Rect 0 0 50 50) = (0, 0, 50, 50)"
    by (simp add: extend_def Let_def transformPoint_def min4_def max4_def)
  then have sb0: "getSelfBounds exampleCulled 0 = Some (Rect 0 0 50 50)"
    using ch sb2 t2 by (simp add: getSelfBounds_def aggregate_Cons extentRect_def)
  have g0: "getGlobalTransform exampleCulled 0 = Some (Matrix2D 1 0 0 1 (- 500) 0)"
    using ch t0 by (simp add: getGlobalTransform_def)
  show ?thesis
    using sb0 g0 boundsOf_translate [of 50 50 "- 500" 0 0 0]
    by (simp add: getGlobalBounds_def)
qed

theorem render_culls_witness:
  "render exampleCulled 0 (Some (Rect 0 0 800 600)) [] = Some [] \<and>
   getGlobalBounds exampleCulled 2 = Some (Rect 0 0 50 50) \<and>
   \<not> isOutside (Rect 0 0 50 50) (Rect 0 0 800 600)"
proof -
  have k: "kind (nodes exampleCulled 0) \<noteq> TransformerNode"
    by (simp add: exampleCulled_def sceneOf_def newNode_def)
  have out: "isOutside (Rect (- 500) 0 50 50) (Rect 0 0 800 600)"
    by (simp add: isOutside_def)
  have r: "render exampleCulled 0 (Some (Rect 0 0 800 600)) [] = Some []"
    using render_culls [where s = exampleCulled and n = 0 and b = "Rect (- 500) 0 50 50"
                          and vp = "Rect 0 0 800 600" and ctx = "[]"]
      exampleCulled_bounds k out
    by simp
  have t2: "getTransform (nodes exampleCulled 2) = Matrix2D 1 0 0 1 0 0"
    and t1: "getTransform (nodes exampleCulled 1) = Matrix2D 1 0 0 1 0 0"
    by (simp_all add: exampleCulled_def sceneOf_def newNode_def getTransform_plain)
  have p: "parent (nodes exampleCulled 2) = Some 1" "parent (nodes exampleCulled 1) = None"
    by (simp_all add: exampleCulled_def sceneOf_def newNode_def)
  have sb2: "getSelfBounds exampleCulled 2 = Some (Rect 0 0 50 50)"
    by (simp add: getSelfBounds_def isContainer_def shapeBounds_def numOr_def
        exampleCulled_def sceneOf_def newNode_def)
  have g2: "getGlobalTransform exampleCulled 2 = Some (Matrix2D 1 0 0 1 0 0)"
    using p t1 t2 by (simp add: getGlobalTransform_def multiply_def)
  have b2: "getGlobalBounds exampleCulled 2 = Some (Rect 0 0 50 50)"
    using sb2 g2 boundsOf_translate [of 50 50 0 0 0 0] by (simp add: getGlobalBounds_def)
  show ?thesis
    using r b2 by (simp add: isOutside_def)
qed

section \<open>Container.remove\<close>

text \<open>
  Claim C10.  \<open>C.remove(n)\<close> for a node \<open>n\<close> that is not in the child list of
  \<open>C\<close> returns and leaves the whole store as it was: the children of \<open>C\<close>, the
  parent reference of \<open>n\<close>, and the record of redraw requests.
\<close>

theorem remove_absent:
  "node \<notin> set (children (nodes s this)) \<longrightarrow>
     removeNode s this node = Some s \<and>
     (\<forall>s'. removeNode s this node = Some s' \<longrightarrow>
        children (nodes s' this) = children (nodes s this) \<and>
        parent (nodes s' node) = parent (nodes s node) \<and>
        redraws s' = redraws s)"
  by (simp add: removeNode_def)

theorem remove_absent_witness:
  "removeNode exampleCulled 0 1 = Some exampleCulled \<and>
   removeNode exampleNested 0 7 = Some exampleNested"
  using remove_absent [of 1 exampleCulled 0] remove_absent [of 7 exampleNested 0]
  by (simp add: exampleCulled_def exampleNested_def sceneOf_def newNode_def)

section \<open>Hit testing: the equations of the methods\<close>

lemma hitTest_container:
  "kind (nodes s c) = ContainerNode \<Longrightarrow>
     hitTest s c p =
       Option.bind (clipGate s c p) (\<lambda>rejected.
         if rejected then Some (None, s)
         else hitRun s (HitChildren (rev (children (nodes s c)))) p)"
  unfolding hitTest_def by (subst hitRun.simps) simp

lemma hitTest_transformer:
  "kind (nodes s n) = TransformerNode \<Longrightarrow> hitTest s n p = transformerHitTest s n p"
  unfolding hitTest_def by (subst hitRun.simps) simp

lemma hitTest_shape:
  "\<not> isContainer (nodes s n) \<Longrightarrow>
     hitTest s n p = Option.bind (nodeHitTest s n p) (\<lambda>r. Some (r, s))"
  unfolding hitTest_def
  by (subst hitRun.simps) (simp add: isContainer_def split: shape.splits)

lemma hitChildren_Nil [simp]: "hitRun s (HitChildren []) p = Some (None, s)"
  by (subst hitRun.simps) simp


section \<open>The clip gate of a container\<close>

text \<open>
  Claim C6.  \<open>Container.hitTest\<close> of a container with clipping enabled maps the
  global point into the space of the container (by the inverse of its global
  transform) and returns \<open>null\<close> when that point is outside the clip rectangle; no
  child is tested, so nothing depends on the children and the store is unchanged.
\<close>

theorem clip_gate_first:
  "kind (nodes s c) = ContainerNode \<and> truthy (props (nodes s c) K_clip) \<and>
   getGlobalTransform s c = Some g \<and>
   clipRejects (nodes s c) (transformPoint (invert g) p) \<longrightarrow>
     hitTest s c p = Some (None, s)"
  by (simp add: hitTest_container clipGate_def)

theorem clip_gate_first_witness:
  "hitTest exampleClip 1 (Point 65 65) = Some (Some 1, exampleClip) \<and>
   hitTest exampleClip 0 (Point 65 65) = Some (None, exampleClip)"
proof -
  have k: "kind (nodes exampleClip 0) = ContainerNode" "truthy (props (nodes exampleClip 0) K_clip)"
    "parent (nodes exampleClip 0) = None" "parent (nodes exampleClip 1) = Some 0"
    "\<not> isContainer (nodes exampleClip 1)"
    by (simp_all add: exampleClip_def sceneOf_def newNode_def truthy_def isContainer_def)
  have t0: "getTransform (nodes exampleClip 0) = Matrix2D 1 0 0 1 0 0"
    and t1: "getTransform (nodes exampleClip 1) = Matrix2D 1 0 0 1 60 60"
    by (simp_all add: exampleClip_def sceneOf_def newNode_def getTransform_plain)
  have g0: "getGlobalTransform exampleClip 0 = Some (Matrix2D 1 0 0 1 0 0)"
    using k t0 by (simp add: getGlobalTransform_def)
  have g1: "getGlobalTransform exampleClip 1 = Some (Matrix2D 1 0 0 1 60 60)"
    using k t0 t1 by (simp add: getGlobalTransform_def multiply_def)
  have rej: "clipRejects (nodes exampleClip 0)
               (transformPoint (invert (Matrix2D 1 0 0 1 0 0)) (Point 65 65))"
    by (simp add: clipRejects_def numOr_def invert_def transformPoint_def
        exampleClip_def sceneOf_def newNode_def)
  have c0: "hitTest exampleClip 0 (Point 65 65) = Some (None, exampleClip)"
    using clip_gate_first [of exampleClip 0 "Matrix2D 1 0 0 1 0 0" "Point 65 65"] k g0 rej
    by simp
  have sb1: "getSelfBounds exampleClip 1 = Some (Rect 0 0 10 10)"
    by (simp add: getSelfBounds_def isContainer_def shapeBounds_def numOr_def
        exampleClip_def sceneOf_def newNode_def)
  have b1: "getGlobalBounds exampleClip 1 = Some (Rect 60 60 10 10)"
    using sb1 g1 by (simp add: getGlobalBounds_def boundsOf_translate)
  have inside: "isPointInShape (nodes exampleClip 1) 5 5"
    by (simp add: isPointInShape_def numOr_def exampleClip_def sceneOf_def newNode_def)
  have "nodeHitTest exampleClip 1 (Point 65 65) = Some (Some 1)"
    using b1 g1 inside by (simp add: nodeHitTest_def invert_def transformPoint_def)
  then have c1: "hitTest exampleClip 1 (Point 65 65) = Some (Some 1, exampleClip)"
    using k by (simp add: hitTest_shape)
  show ?thesis using c0 c1 by simp
qed

section \<open>Hit testing in a container\<close>



section \<open>Stores along a parent chain, and the sorted tree\<close>

lemma chain_cong:
  "chain N n ps \<Longrightarrow> \<forall>i \<in> set (n # ps). parent (N' i) = parent (N i) \<Longrightarrow> chain N' n ps"
proof (induction rule: chain.induct)
  case (chain_root N n)
  then show ?case by (simp add: chain.chain_root)
next
  case (chain_step N n p ps)
  then show ?case by (simp add: chain.chain_step)
qed

lemma chain_unique: "chain N n ps \<Longrightarrow> chain N n qs \<Longrightarrow> ps = qs"
proof (induction arbitrary: qs rule: chain.induct)
  case (chain_root N n)
  then show ?case by (auto elim: chain.cases)
next
  case (chain_step N n p ps)
  from chain_step.prems chain_step.hyps(1) obtain qs' where "qs = p # qs'" "chain N p qs'"
    by (auto elim: chain.cases)
  then show ?case using chain_step.IH by simp
qed

lemma requestRedraw_nodes:
  assumes "requestRedraw s n = Some s'"
  shows "nodes s' = nodes s"
  by (rule requestRedraw.raw_induct [where P = "\<lambda>s n s'. nodes s' = nodes s", OF _ assms])
     (auto simp: Let_def split: option.splits)

lemma requestRedraw_extends:
  assumes "requestRedraw s n = Some s'"
  shows "\<exists>extra. redraws s' = redraws s @ n # extra"
proof (rule requestRedraw.raw_induct
        [where P = "\<lambda>s n s'. \<exists>extra. redraws s' = redraws s @ n # extra", OF _ assms],
       goal_cases)
  case (1 f s n sa)
  show ?case
  proof (cases "parent (nodes s n)")
    case None
    with 1(2) show ?thesis by (auto simp: Let_def)
  next
    case (Some p)
    with 1(2) have "f (s\<lparr>redraws := redraws s @ [n]\<rparr>) p = Some sa"
      by (simp add: Let_def)
    from 1(1) [OF this] show ?thesis by auto
  qed
qed

lemma nodes_upd [simp]: "nodes (upd s i g) = (nodes s)(i := g (nodes s i))"
  by (simp add: upd_def)

lemma redraws_upd [simp]: "redraws (upd s i g) = redraws s"
  by (simp add: upd_def)

lemma sameTree_refl [simp]: "sameTree s s"
  by (simp add: sameTree_def)

lemma sameTree_trans: "sameTree s t \<Longrightarrow> sameTree t u \<Longrightarrow> sameTree s u"
  by (simp add: sameTree_def)

lemma sortedTree_sameTree: "sameTree s s' \<Longrightarrow> sortedTree s \<Longrightarrow> sortedTree s'"
  by (simp add: sameTree_def sortedTree_def isContainer_def)

lemma sameTree_redraw:
  assumes "requestRedraw (upd s n g) n = Some s'"
    and "\<And>nd. children (g nd) = children nd \<and> zIndex (g nd) = zIndex nd \<and>
               parent (g nd) = parent nd \<and> kind (g nd) = kind nd"
  shows "sameTree s s'"
  using requestRedraw_nodes [OF assms(1)] assms(2) by (simp add: sameTree_def)

lemma set_x_sameTree: "set_x s n v = Some s' \<Longrightarrow> sameTree s s'"
  by (auto simp: set_x_def split: if_splits intro: sameTree_redraw)

lemma set_y_sameTree: "set_y s n v = Some s' \<Longrightarrow> sameTree s s'"
  by (auto simp: set_y_def split: if_splits intro: sameTree_redraw)

lemma set_rotation_sameTree: "set_rotation s n v = Some s' \<Longrightarrow> sameTree s s'"
  by (auto simp: set_rotation_def split: if_splits intro: sameTree_redraw)

lemma set_scaleX_sameTree: "set_scaleX s n v = Some s' \<Longrightarrow> sameTree s s'"
  by (auto simp: set_scaleX_def split: if_splits intro: sameTree_redraw)

lemma set_scaleY_sameTree: "set_scaleY s n v = Some s' \<Longrightarrow> sameTree s s'"
  by (auto simp: set_scaleY_def split: if_splits intro: sameTree_redraw)

lemma set_zIndex_sortedTree:
  assumes inv: "sortedTree s" and r: "set_zIndex s n z = Some s'"
  shows "sortedTree s'"
proof (cases "zIndex (nodes s n) = z")
  case True
  with r inv show ?thesis by (simp add: set_zIndex_def)
next
  case False
  define N1 where "N1 = (nodes s)(n := (nodes s n)\<lparr>zIndex := z\<rparr>)"
  from r False obtain s2 where rr: "requestRedraw (upd s n (\<lambda>nd. nd\<lparr>zIndex := z\<rparr>)) n = Some s2"
    and fin: "(case parent (nodes s2 n) of None \<Rightarrow> Some s2
               | Some p \<Rightarrow> if isContainer (nodes s2 p) then Some (sortChildren s2 p) else Some s2)
              = Some s'"
    by (auto simp: set_zIndex_def split: bind_splits)
  have n2: "nodes s2 = N1"
    using requestRedraw_nodes [OF rr] by (simp add: N1_def)
  have cont: "isContainer (N1 d) = isContainer (nodes s d)" for d
    by (simp add: N1_def isContainer_def)
  have ch: "children (N1 d) = children (nodes s d)" for d
    by (simp add: N1_def)
  have par: "parent (N1 d) = parent (nodes s d)" for d
    by (simp add: N1_def)
  have zi: "i \<noteq> n \<Longrightarrow> zIndex (N1 i) = zIndex (nodes s i)" for i
    by (simp add: N1_def)
  have link: "isContainer (nodes s d) \<Longrightarrow> distinct (children (nodes s d)) \<and>
      (\<forall>i \<in> set (children (nodes s d)). parent (nodes s i) = Some d)" for d
    using inv by (simp add: sortedTree_def)
  have other: "sorted (map (\<lambda>i. zIndex (N1 i)) (children (nodes s d)))"
    if "isContainer (nodes s d)" "parent (nodes s n) \<noteq> Some d" for d
  proof -
    have "n \<notin> set (children (nodes s d))" using link [OF that(1)] that(2) by auto
    then have eq: "map (\<lambda>i. zIndex (N1 i)) (children (nodes s d)) =
               map (\<lambda>i. zIndex (nodes s i)) (children (nodes s d))"
      by (intro map_cong refl) (metis zi)
    have "sorted (map (\<lambda>i. zIndex (nodes s i)) (children (nodes s d)))"
      using inv that(1) by (simp add: sortedTree_def)
    then show ?thesis unfolding eq .
  qed
  show ?thesis
  proof (cases "parent (nodes s n)")
    case None
    then have "s' = s2" using fin n2 par by simp
    then show ?thesis
      using n2 None other link by (auto simp: sortedTree_def cont ch par)
  next
    case (Some p)
    show ?thesis
    proof (cases "isContainer (nodes s p)")
      case False
      then have "s' = s2" using fin n2 par cont Some by simp
      moreover have "parent (nodes s n) \<noteq> Some d" if "isContainer (nodes s d)" for d
        using that False Some by auto
      ultimately show ?thesis
        using n2 other link by (auto simp: sortedTree_def cont ch par)
    next
      case True
      then have s': "s' = sortChildren s2 p" using fin n2 par cont Some by simp
      have N': "nodes s' = N1(p := (N1 p)\<lparr>children := sort_key (\<lambda>c. zIndex (N1 c)) (children (N1 p))\<rparr>)"
        by (simp add: s' sortChildren_def n2)
      show ?thesis
        unfolding sortedTree_def
      proof (intro allI impI)
        fix c
        assume c: "isContainer (nodes s' c)"
        have "kind (nodes s' c) = kind (nodes s c)"
          by (simp add: N' N1_def)
        with c have cc: "isContainer (nodes s c)"
          by (simp add: isContainer_def)
        have zs: "zIndex (nodes s' i) = zIndex (N1 i)" for i by (simp add: N')
        have ps: "parent (nodes s' i) = parent (nodes s i)" for i by (simp add: N' par)
        show "sorted (map (\<lambda>i. zIndex (nodes s' i)) (children (nodes s' c))) \<and>
              distinct (children (nodes s' c)) \<and>
              (\<forall>i \<in> set (children (nodes s' c)). parent (nodes s' i) = Some c)"
        proof (cases "c = p")
          case True
          then have "children (nodes s' c) =
                       sort_key (\<lambda>c. zIndex (N1 c)) (children (nodes s p))"
            by (simp add: N' ch)
          then show ?thesis
            using True link [OF cc] by (simp add: zs ps)
        next
          case False
          then have "parent (nodes s n) \<noteq> Some c" using Some by simp
          moreover have "children (nodes s' c) = children (nodes s c)"
            using False by (simp add: N' ch)
          ultimately show ?thesis
            using other [OF cc] link [OF cc] by (simp add: zs ps)
        qed
      qed
    qed
  qed
qed

lemma sameTree_upd:
  assumes "\<And>nd. children (g nd) = children nd \<and> zIndex (g nd) = zIndex nd \<and>
               parent (g nd) = parent nd \<and> kind (g nd) = kind nd"
  shows "sameTree s (upd s n g)"
  using assms by (simp add: sameTree_def)

lemma assignField_sortedTree:
  assumes "sortedTree s" "assignField s n fld = Some s'"
  shows "sortedTree s'"
proof (cases fld)
  case (F_zIndex v)
  then show ?thesis using assms by (simp add: assignField_def set_zIndex_sortedTree)
next
  case (F_draggable b)
  then have "sameTree s s'"
    using assms(2) sameTree_upd [of "\<lambda>nd. nd\<lparr>draggable := b\<rparr>" s n]
    by (auto simp: assignField_def)
  then show ?thesis using assms(1) sortedTree_sameTree by blast
next
  case (F_cursor c)
  then have "sameTree s s'"
    using assms(2) sameTree_upd [of "\<lambda>nd. nd\<lparr>cursor := c\<rparr>" s n]
    by (auto simp: assignField_def set_cursor_def)
  then show ?thesis using assms(1) sortedTree_sameTree by blast
next
  case (F_other k v)
  then show ?thesis using assms by (simp add: assignField_def)
qed (use assms in \<open>auto simp: assignField_def
      dest!: set_x_sameTree set_y_sameTree set_rotation_sameTree set_scaleX_sameTree
             set_scaleY_sameTree
      intro: sortedTree_sameTree\<close>)

lemma assignAll_sortedTree:
  "sortedTree s \<Longrightarrow> assignAll s n flds = Some s' \<Longrightarrow> sortedTree s'"
proof (induction flds arbitrary: s)
  case Nil
  then show ?case by simp
next
  case (Cons fld flds)
  from Cons.prems(2) obtain s1 where "assignField s n fld = Some s1" "assignAll s1 n flds = Some s'"
    by (auto split: bind_splits)
  then show ?case using Cons.IH Cons.prems(1) assignField_sortedTree by blast
qed

lemma updateEvents_fields [simp]:
  "children (updateEvents ps nd) = children nd"
  "zIndex (updateEvents ps nd) = zIndex nd"
  "parent (updateEvents ps nd) = parent nd"
  "kind (updateEvents ps nd) = kind nd"
  "props (updateEvents ps nd) = props nd"
  by (simp_all add: updateEvents_def)

lemma nodeSetProps_sortedTree:
  assumes "sortedTree s" "nodeSetProps s n flds = Some s'"
  shows "sortedTree s'"
proof -
  from assms(2) obtain s1 where a: "assignAll s n flds = Some s1"
    and r: "requestRedraw
              (upd s1 n (\<lambda>nd. updateEvents (mergeProps (props nd) flds)
                                 (nd\<lparr>props := mergeProps (props nd) flds\<rparr>))) n = Some s'"
    by (auto simp: nodeSetProps_def split: bind_splits)
  have "sortedTree s1" using assms(1) a by (rule assignAll_sortedTree)
  moreover have "sameTree s1 s'" using r by (rule sameTree_redraw) simp
  ultimately show ?thesis using sortedTree_sameTree by blast
qed

lemma updateImage_sameTree:
  assumes "updateImage s n ps = Some s'"
  shows "sameTree s s'"
proof -
  have "sameTree s s'" if "requestRedraw (upd s n (\<lambda>nd. nd\<lparr>imageObj := v\<rparr>)) n = Some s'" for v
    using that by (rule sameTree_redraw) simp
  moreover have "sameTree s (s\<lparr>pending := q\<rparr>)" for q
    by (simp add: sameTree_def)
  ultimately show ?thesis
    using assms by (auto simp: updateImage_def split: if_splits option.splits)
qed

lemma setProps_sortedTree:
  assumes "sortedTree s" "setProps s n flds = Some s'"
  shows "sortedTree s'"
proof (cases "kind (nodes s n) = ImageShape")
  case False
  then show ?thesis using assms by (simp add: setProps_def nodeSetProps_sortedTree)
next
  case True
  with assms(2) obtain s1 where n: "nodeSetProps s n flds = Some s1"
    and u: "(if truthy (supplied flds K_src) \<or> truthy (supplied flds K_image)
             then updateImage s1 n (props (nodes s1 n)) else Some s1) = Some s'"
    by (auto simp: setProps_def split: bind_splits)
  have s1: "sortedTree s1" using assms(1) n by (rule nodeSetProps_sortedTree)
  show ?thesis
  proof (cases "truthy (supplied flds K_src) \<or> truthy (supplied flds K_image)")
    case False
    then show ?thesis using u s1 by simp
  next
    case True
    then have "sameTree s1 s'" using u by (simp add: updateImage_sameTree)
    then show ?thesis using s1 sortedTree_sameTree by blast
  qed
qed

lemma add_sortedTree:
  assumes inv: "sortedTree s"
    and fresh: "\<forall>d. isContainer (nodes s d) \<longrightarrow> n \<notin> set (children (nodes s d))"
    and r: "add s c n = Some s'"
  shows "sortedTree s'"
proof -
  define s2 where "s2 = upd (upd s n (\<lambda>nd. nd\<lparr>parent := Some c\<rparr>)) c
                               (\<lambda>nd. nd\<lparr>children := children nd @ [n]\<rparr>)"
  have z2: "zIndex (nodes s2 i) = zIndex (nodes s i)" for i by (simp add: s2_def)
  have c2: "children (nodes s2 c) = children (nodes s c) @ [n]" by (simp add: s2_def)
  have N': "nodes s' = (nodes s2)(c := (nodes s2 c)
              \<lparr>children := sort_key (\<lambda>i. zIndex (nodes s i)) (children (nodes s c) @ [n])\<rparr>)"
    using requestRedraw_nodes [OF r [unfolded add_def Let_def]]
    by (simp add: sortChildren_def s2_def [symmetric] z2 c2)
  have zi: "zIndex (nodes s' i) = zIndex (nodes s i)" for i
    by (simp add: N' z2)
  have kd: "kind (nodes s' i) = kind (nodes s i)" for i
    by (simp add: N') (simp add: s2_def)
  have pa: "parent (nodes s' i) = (if i = n then Some c else parent (nodes s i))" for i
    by (simp add: N') (simp add: s2_def)
  have ch: "children (nodes s' d) =
      (if d = c then sort_key (\<lambda>i. zIndex (nodes s i)) (children (nodes s c) @ [n])
       else children (nodes s d))" for d
    by (simp add: N') (simp add: s2_def)
  show ?thesis
    unfolding sortedTree_def
  proof (intro allI impI)
    fix d
    assume "isContainer (nodes s' d)"
    then have dc: "isContainer (nodes s d)" by (simp add: isContainer_def kd)
    then have ok: "sorted (map (\<lambda>i. zIndex (nodes s i)) (children (nodes s d)))"
      "distinct (children (nodes s d))"
      "\<forall>i \<in> set (children (nodes s d)). parent (nodes s i) = Some d"
      "n \<notin> set (children (nodes s d))"
      using inv fresh by (simp_all add: sortedTree_def)
    show "sorted (map (\<lambda>i. zIndex (nodes s' i)) (children (nodes s' d))) \<and>
          distinct (children (nodes s' d)) \<and>
          (\<forall>i \<in> set (children (nodes s' d)). parent (nodes s' i) = Some d)"
      using ok by (auto simp: zi pa ch)
  qed
qed

lemma remove_sortedTree:
  assumes inv: "sortedTree s" and cont: "isContainer (nodes s c)"
    and r: "removeNode s c n = Some s'"
  shows "sortedTree s'"
proof (cases "n \<in> set (children (nodes s c))")
  case False
  then show ?thesis using r inv by (simp add: removeNode_def)
next
  case True
  then have rr: "requestRedraw
     (upd (upd s c (\<lambda>nd. nd\<lparr>children := remove1 n (children nd)\<rparr>)) n (\<lambda>nd. nd\<lparr>parent := None\<rparr>)) c
     = Some s'"
    using r by (simp add: removeNode_def Let_def)
  have zi: "zIndex (nodes s' i) = zIndex (nodes s i)" for i
    using requestRedraw_nodes [OF rr] by simp
  have kd: "kind (nodes s' i) = kind (nodes s i)" for i
    using requestRedraw_nodes [OF rr] by simp
  have pa: "parent (nodes s' i) = (if i = n then None else parent (nodes s i))" for i
    using requestRedraw_nodes [OF rr] by simp
  have ch: "children (nodes s' d) =
      (if d = c then remove1 n (children (nodes s c)) else children (nodes s d))" for d
    using requestRedraw_nodes [OF rr] by simp
  have pn: "parent (nodes s n) = Some c"
    using inv cont True by (simp add: sortedTree_def)
  show ?thesis
    unfolding sortedTree_def
  proof (intro allI impI)
    fix d
    assume "isContainer (nodes s' d)"
    then have dc: "isContainer (nodes s d)" by (simp add: isContainer_def kd)
    then have ok: "sorted (map (\<lambda>i. zIndex (nodes s i)) (children (nodes s d)))"
      "distinct (children (nodes s d))"
      "\<forall>i \<in> set (children (nodes s d)). parent (nodes s i) = Some d"
      using inv by (simp_all add: sortedTree_def)
    show "sorted (map (\<lambda>i. zIndex (nodes s' i)) (children (nodes s' d))) \<and>
          distinct (children (nodes s' d)) \<and>
          (\<forall>i \<in> set (children (nodes s' d)). parent (nodes s' i) = Some d)"
    proof (cases "d = c")
      case True
      then show ?thesis using ok by (auto simp: zi pa ch sorted_map_remove1)
    next
      case False
      then have "n \<notin> set (children (nodes s d))" using ok(3) pn by auto
      then show ?thesis using False ok by (auto simp: zi pa ch)
    qed
  qed
qed

lemma redraw_upd_chain:
  assumes "chain (nodes s) n ps" and "\<And>nd. parent (g nd) = parent nd"
  shows "requestRedraw (upd s n g) n = Some ((upd s n g)\<lparr>redraws := redraws s @ n # ps\<rparr>)"
proof -
  have "chain (nodes (upd s n g)) n ps"
    using assms(1) by (rule chain_cong) (simp add: assms(2))
  then show ?thesis
    using requestRedraw_chain [of "nodes (upd s n g)" n ps "upd s n g"] by simp
qed

lemma upd_same: "g (nodes s n) = nodes s n \<Longrightarrow> upd s n g = s"
  by (simp add: upd_def)

lemma set_x_chain:
  "chain (nodes s) n ps \<Longrightarrow>
     set_x s n v = Some (if node_x (nodes s n) = v then s
                         else (upd s n (\<lambda>nd. nd\<lparr>node_x := v\<rparr>))\<lparr>redraws := redraws s @ n # ps\<rparr>)"
  by (simp add: set_x_def redraw_upd_chain)

lemma set_y_chain:
  "chain (nodes s) n ps \<Longrightarrow>
     set_y s n v = Some (if node_y (nodes s n) = v then s
                         else (upd s n (\<lambda>nd. nd\<lparr>node_y := v\<rparr>))\<lparr>redraws := redraws s @ n # ps\<rparr>)"
  by (simp add: set_y_def redraw_upd_chain)

lemma set_rotation_chain:
  "chain (nodes s) n ps \<Longrightarrow>
     set_rotation s n v = Some (if rotation (nodes s n) = v then s
                         else (upd s n (\<lambda>nd. nd\<lparr>rotation := v\<rparr>))\<lparr>redraws := redraws s @ n # ps\<rparr>)"
  by (simp add: set_rotation_def redraw_upd_chain)

lemma set_scaleX_chain:
  "chain (nodes s) n ps \<Longrightarrow>
     set_scaleX s n v = Some (if scaleX (nodes s n) = v then s
                         else (upd s n (\<lambda>nd. nd\<lparr>scaleX := v\<rparr>))\<lparr>redraws := redraws s @ n # ps\<rparr>)"
  by (simp add: set_scaleX_def redraw_upd_chain)

lemma set_scaleY_chain:
  "chain (nodes s) n ps \<Longrightarrow>
     set_scaleY s n v = Some (if scaleY (nodes s n) = v then s
                         else (upd s n (\<lambda>nd. nd\<lparr>scaleY := v\<rparr>))\<lparr>redraws := redraws s @ n # ps\<rparr>)"
  by (simp add: set_scaleY_def redraw_upd_chain)

lemma set_zIndex_chain:
  assumes "chain (nodes s) n ps" "zIndex (nodes s n) \<noteq> v"
  shows "set_zIndex s n v =
     Some (let s1 = (upd s n (\<lambda>nd. nd\<lparr>zIndex := v\<rparr>))\<lparr>redraws := redraws s @ n # ps\<rparr> in
           case parent (nodes s n) of
             None \<Rightarrow> s1
           | Some p \<Rightarrow> if isContainer (nodes s p) then sortChildren s1 p else s1)"
proof -
  have k: "isContainer (if p = n then (nodes s n)\<lparr>zIndex := v\<rparr> else nodes s p) =
           isContainer (nodes s p)" for p
    by (simp add: isContainer_def)
  show ?thesis
    using assms
    by (simp add: set_zIndex_def redraw_upd_chain Let_def k split: option.splits)
qed

lemma assignField_chain:
  assumes "chain (nodes s) n ps"
  shows "\<exists>s1 extra. assignField s n fld = Some s1 \<and> redraws s1 = redraws s @ extra \<and>
           (\<forall>i. parent (nodes s1 i) = parent (nodes s i))"
proof (cases fld)
  case (F_zIndex v)
  show ?thesis
  proof (cases "zIndex (nodes s n) = v")
    case True
    then show ?thesis using F_zIndex by (simp add: assignField_def set_zIndex_def)
  next
    case False
    show ?thesis
      using F_zIndex set_zIndex_chain [OF assms False]
      by (simp add: assignField_def Let_def sortChildren_def split: option.splits)
  qed
qed (use assms in \<open>simp_all add: assignField_def set_x_chain set_y_chain set_rotation_chain
       set_scaleX_chain set_scaleY_chain set_cursor_def\<close>)

lemma assignAll_chain:
  assumes "chain (nodes s) n ps"
  shows "\<exists>s1 extra. assignAll s n flds = Some s1 \<and> redraws s1 = redraws s @ extra \<and>
           (\<forall>i. parent (nodes s1 i) = parent (nodes s i))"
  using assms
proof (induction flds arbitrary: s)
  case Nil
  then show ?case by simp
next
  case (Cons fld flds)
  from assignField_chain [OF Cons.prems, of fld] obtain s1 e1
    where s1: "assignField s n fld = Some s1" "redraws s1 = redraws s @ e1"
      "\<forall>i. parent (nodes s1 i) = parent (nodes s i)"
    by blast
  have "chain (nodes s1) n ps"
    using Cons.prems by (rule chain_cong) (simp add: s1(3))
  from Cons.IH [OF this] obtain s2 e2
    where s2: "assignAll s1 n flds = Some s2" "redraws s2 = redraws s1 @ e2"
      "\<forall>i. parent (nodes s2 i) = parent (nodes s1 i)"
    by blast
  show ?case using s1 s2 by simp
qed

lemma nodeSetProps_chain:
  assumes "chain (nodes s) n ps"
  shows "\<exists>s' extra. nodeSetProps s n flds = Some s' \<and>
           redraws s' = redraws s @ extra @ n # ps \<and>
           (\<forall>i. parent (nodes s' i) = parent (nodes s i))"
proof -
  from assignAll_chain [OF assms, of flds] obtain s1 e1
    where s1: "assignAll s n flds = Some s1" "redraws s1 = redraws s @ e1"
      "\<forall>i. parent (nodes s1 i) = parent (nodes s i)"
    by blast
  have "chain (nodes s1) n ps"
    using assms by (rule chain_cong) (simp add: s1(3))
  then show ?thesis
    using s1 by (simp add: nodeSetProps_def redraw_upd_chain)
qed

lemma updateImage_chain:
  assumes "chain (nodes s) n ps"
  shows "\<exists>s'. updateImage s n pr = Some s' \<and>
           (redraws s' = redraws s \<or> redraws s' = redraws s @ n # ps)"
  using assms by (simp add: updateImage_def redraw_upd_chain split: option.splits)

lemma setProps_chain:
  assumes "chain (nodes s) n ps"
  shows "\<exists>s' extra. setProps s n flds = Some s' \<and> redraws s' = redraws s @ extra @ n # ps"
proof -
  from nodeSetProps_chain [OF assms, of flds] obtain s1 e1
    where s1: "nodeSetProps s n flds = Some s1" "redraws s1 = redraws s @ e1 @ n # ps"
      "\<forall>i. parent (nodes s1 i) = parent (nodes s i)"
    by blast
  have "chain (nodes s1) n ps"
    using assms by (rule chain_cong) (simp add: s1(3))
  from updateImage_chain [OF this, of "props (nodes s1 n)"] obtain s2
    where s2: "updateImage s1 n (props (nodes s1 n)) = Some s2"
      "redraws s2 = redraws s1 \<or> redraws s2 = redraws s1 @ n # ps"
    by blast
  have "\<exists>extra. redraws s2 = redraws s @ extra @ n # ps"
  proof (cases "redraws s2 = redraws s1")
    case True
    then show ?thesis using s1(2) by simp
  next
    case False
    with s2(2) have "redraws s2 = redraws s @ (e1 @ n # ps) @ n # ps"
      using s1(2) by simp
    then show ?thesis by blast
  qed
  then show ?thesis
    using s1(1,2) s2(1) by (auto simp: setProps_def)
qed

lemma assignField_current:
  "fieldCurrent (nodes s n) fld \<Longrightarrow> assignField s n fld = Some s"
  by (cases fld)
     (simp_all add: assignField_def set_x_def set_y_def set_rotation_def set_scaleX_def
        set_scaleY_def set_zIndex_def set_cursor_def upd_same)

lemma assignAll_current:
  "\<forall>fld \<in> set flds. fieldCurrent (nodes s n) fld \<Longrightarrow> assignAll s n flds = Some s"
  by (induction flds) (simp_all add: assignField_current)

lemma mergeProps_current:
  "\<forall>fld \<in> set flds. fieldCurrent nd fld \<Longrightarrow> mergeProps (props nd) flds = props nd"
proof (induction flds)
  case Nil
  show ?case by simp
next
  case (Cons fld flds)
  then show ?case by (cases fld) (simp_all add: map_upd_triv)
qed

section \<open>The topmost child under the pointer\<close>







section \<open>Redraw requests of the setters and of \<open>setProps\<close>\<close>

lemma set_zIndex_redraws:
  assumes "chain (nodes s) n ps" "zIndex (nodes s n) \<noteq> v"
  shows "\<exists>s'. set_zIndex s n v = Some s' \<and> redraws s' = redraws s @ n # ps"
  using set_zIndex_chain [OF assms]
  by (simp add: Let_def sortChildren_def split: option.splits)

lemma nodeSetProps_current:
  assumes "chain (nodes s) n ps" "\<forall>fld \<in> set flds. fieldCurrent (nodes s n) fld"
  shows "nodeSetProps s n flds =
     Some ((upd s n (updateEvents (props (nodes s n))))\<lparr>redraws := redraws s @ n # ps\<rparr>)"
proof -
  have m: "mergeProps (props (nodes s n)) flds = props (nodes s n)"
    using assms(2) by (simp add: mergeProps_current)
  have "upd s n (\<lambda>nd. updateEvents (mergeProps (props nd) flds)
                         (nd\<lparr>props := mergeProps (props nd) flds\<rparr>)) =
        upd s n (updateEvents (props (nodes s n)))"
    by (simp add: upd_def m)
  then show ?thesis
    using assms by (simp add: nodeSetProps_def assignAll_current redraw_upd_chain)
qed

lemma updateImage_redraws:
  assumes "chain (nodes s) n ps"
  shows "\<exists>s'. updateImage s n pr = Some s' \<and>
           redraws s' = redraws s @
             (if truthy (pr K_image) \<or>
                 truthy (pr K_src) \<and> cache s (strOr (pr K_src) []) \<noteq> None
              then n # ps else [])"
  using assms by (auto simp: updateImage_def redraw_upd_chain split: option.splits)

lemma setProps_current:
  assumes "chain (nodes s) n ps" "\<forall>fld \<in> set flds. fieldCurrent (nodes s n) fld"
  shows "\<exists>s'. setProps s n flds = Some s' \<and>
     redraws s' = redraws s @ n # ps @
       (if kind (nodes s n) = ImageShape \<and>
           (truthy (supplied flds K_src) \<or> truthy (supplied flds K_image)) \<and>
           (truthy (props (nodes s n) K_image) \<or>
            truthy (props (nodes s n) K_src) \<and>
            cache s (strOr (props (nodes s n) K_src) []) \<noteq> None)
        then n # ps else [])"
proof -
  define s1 where
    "s1 = (upd s n (updateEvents (props (nodes s n))))\<lparr>redraws := redraws s @ n # ps\<rparr>"
  have n1: "nodeSetProps s n flds = Some s1"
    using assms by (simp add: nodeSetProps_current s1_def)
  have f1: "props (nodes s1 n) = props (nodes s n)" "cache s1 = cache s"
    "redraws s1 = redraws s @ n # ps"
    by (simp_all add: s1_def upd_def)
  have "chain (nodes s1) n ps"
    using assms(1) by (rule chain_cong) (simp add: s1_def)
  from updateImage_redraws [OF this, of "props (nodes s n)"] obtain s2
    where s2: "updateImage s1 n (props (nodes s n)) = Some s2"
      "redraws s2 = redraws s1 @
         (if truthy (props (nodes s n) K_image) \<or>
             truthy (props (nodes s n) K_src) \<and>
             cache s1 (strOr (props (nodes s n) K_src) []) \<noteq> None
          then n # ps else [])"
    by blast
  show ?thesis
  proof (cases "kind (nodes s n) = ImageShape \<and>
           (truthy (supplied flds K_src) \<or> truthy (supplied flds K_image))")
    case True
    then have "setProps s n flds = Some s2"
      using n1 s2(1) f1(1) by (simp add: setProps_def)
    then show ?thesis using True s2(2) f1(2,3) by simp
  next
    case False
    then have "setProps s n flds = Some s1"
      using n1 by (auto simp: setProps_def)
    then show ?thesis using False f1(3) by auto
  qed
qed

lemma exampleImage_chain: "chain (nodes exampleImage) 1 [0]"
  by (intro chain.intros) (simp_all add: exampleImage_def sceneOf_def newNode_def)

text \<open>
  \<open>setProps\<close> re-derives the handlers from the property bag: called on a
  transformer, whose properties name no handler, it takes away the three drag
  handlers that the constructor had bound.
\<close>

lemma setProps_rederives_handlers:
  "onDragStart (events (nodes exampleGizmo 1)) = Some BoundDragStart \<and>
   map_option (\<lambda>s. events (nodes s 1)) (setProps exampleGizmo 1 []) =
     Some \<lparr>onClick = None, onMouseEnter = None, onMouseLeave = None,
           onDragStart = None, onDragMove = None, onDragEnd = None\<rparr>"
proof -
  have c: "chain (nodes exampleGizmo) 1 []"
    by (intro chain.intros) (simp add: exampleGizmo_def sceneOf_def newNode_def)
  have k: "kind (nodes exampleGizmo 1) \<noteq> ImageShape"
    "props (nodes exampleGizmo 1) = [K_handleSize \<mapsto> Num 10]"
    "onDragStart (events (nodes exampleGizmo 1)) = Some BoundDragStart"
    by (simp_all add: exampleGizmo_def sceneOf_def newNode_def newEvents_def)
  have "setProps exampleGizmo 1 [] =
     Some ((upd exampleGizmo 1 (updateEvents (props (nodes exampleGizmo 1))))
             \<lparr>redraws := redraws exampleGizmo @ [1]\<rparr>)"
    using nodeSetProps_current [OF c, of "[]"] k(1) by (simp add: setProps_def)
  then show ?thesis
    using k(2,3) by (simp add: updateEvents_def callbackOf_def)
qed

text \<open>
  Claim C7, as amended.  The setters compare with the current value: a setter given
  the current value returns with the store unchanged (no redraw request), and one
  given another value stores it and requests one redraw, which reaches every node of
  the parent chain.  \<open>setProps\<close> runs the setters of the supplied fields and then
  always requests a redraw: when every supplied field equals the current value, the
  setters request none (\<open>Object.assign\<close> leaves the store as it is) and
  \<open>setProps\<close> requests exactly one, or two on an \<open>Image\<close> that is given
  \<open>src\<close> or \<open>image\<close> and finds its image at hand; and for every partial the
  record of redraw requests ends with a request from the node.
\<close>

theorem setProps_redraws:
  "chain (nodes s) n ps \<longrightarrow>
     set_x s n v = Some (if node_x (nodes s n) = v then s
        else (upd s n (\<lambda>nd. nd\<lparr>node_x := v\<rparr>))\<lparr>redraws := redraws s @ n # ps\<rparr>) \<and>
     set_y s n v = Some (if node_y (nodes s n) = v then s
        else (upd s n (\<lambda>nd. nd\<lparr>node_y := v\<rparr>))\<lparr>redraws := redraws s @ n # ps\<rparr>) \<and>
     set_rotation s n v = Some (if rotation (nodes s n) = v then s
        else (upd s n (\<lambda>nd. nd\<lparr>rotation := v\<rparr>))\<lparr>redraws := redraws s @ n # ps\<rparr>) \<and>
     set_scaleX s n v = Some (if scaleX (nodes s n) = v then s
        else (upd s n (\<lambda>nd. nd\<lparr>scaleX := v\<rparr>))\<lparr>redraws := redraws s @ n # ps\<rparr>) \<and>
     set_scaleY s n v = Some (if scaleY (nodes s n) = v then s
        else (upd s n (\<lambda>nd. nd\<lparr>scaleY := v\<rparr>))\<lparr>redraws := redraws s @ n # ps\<rparr>) \<and>
     (zIndex (nodes s n) = v \<longrightarrow> set_zIndex s n v = Some s) \<and>
     (zIndex (nodes s n) \<noteq> v \<longrightarrow>
        (\<exists>s'. set_zIndex s n v = Some s' \<and> redraws s' = redraws s @ n # ps)) \<and>
     ((\<forall>fld \<in> set flds. fieldCurrent (nodes s n) fld) \<longrightarrow>
        assignAll s n flds = Some s \<and>
        (\<exists>s'. setProps s n flds = Some s' \<and>
           redraws s' = redraws s @ n # ps @
             (if kind (nodes s n) = ImageShape \<and>
                 (truthy (supplied flds K_src) \<or> truthy (supplied flds K_image)) \<and>
                 (truthy (props (nodes s n) K_image) \<or>
                  truthy (props (nodes s n) K_src) \<and>
                  cache s (strOr (props (nodes s n) K_src) []) \<noteq> None)
              then n # ps else []))) \<and>
     (\<exists>s' extra. setProps s n flds = Some s' \<and> redraws s' = redraws s @ extra @ n # ps)"
proof (intro impI conjI)
  assume c: "chain (nodes s) n ps"
  show "\<exists>s' extra. setProps s n flds = Some s' \<and> redraws s' = redraws s @ extra @ n # ps"
    using c by (rule setProps_chain)
  show "zIndex (nodes s n) = v \<Longrightarrow> set_zIndex s n v = Some s"
    by (simp add: set_zIndex_def)
  show "zIndex (nodes s n) \<noteq> v \<Longrightarrow>
        \<exists>s'. set_zIndex s n v = Some s' \<and> redraws s' = redraws s @ n # ps"
    using c by (rule set_zIndex_redraws)
  show "\<forall>fld \<in> set flds. fieldCurrent (nodes s n) fld \<Longrightarrow> assignAll s n flds = Some s"
    by (rule assignAll_current)
  show "\<forall>fld \<in> set flds. fieldCurrent (nodes s n) fld \<Longrightarrow>
        \<exists>s'. setProps s n flds = Some s' \<and>
           redraws s' = redraws s @ n # ps @
             (if kind (nodes s n) = ImageShape \<and>
                 (truthy (supplied flds K_src) \<or> truthy (supplied flds K_image)) \<and>
                 (truthy (props (nodes s n) K_image) \<or>
                  truthy (props (nodes s n) K_src) \<and>
                  cache s (strOr (props (nodes s n) K_src) []) \<noteq> None)
              then n # ps else [])"
    using c by (rule setProps_current)
qed (simp_all add: set_x_chain set_y_chain set_rotation_chain set_scaleX_chain set_scaleY_chain)

theorem setProps_redraws_witness:
  "set_x exampleNested 1 5 = Some exampleNested \<and>
   set_x exampleNested 1 7 =
     Some ((upd exampleNested 1 (\<lambda>nd. nd\<lparr>node_x := 7\<rparr>))\<lparr>redraws := [1, 0]\<rparr>) \<and>
   assignAll exampleNested 1 [F_x 5, F_zIndex 0] = Some exampleNested \<and>
   map_option redraws (setProps exampleNested 1 [F_x 5, F_zIndex 0]) = Some [1, 0] \<and>
   map_option redraws (setProps exampleImage 1 [F_other K_src (Str ''a.png'')]) =
     Some [1, 0, 1, 0]"
proof -
  have x: "node_x (nodes exampleNested 1) = 5" "zIndex (nodes exampleNested 1) = 0"
    "redraws exampleNested = []" "kind (nodes exampleNested 1) = RectShape"
    by (simp_all add: exampleNested_def sceneOf_def newNode_def)
  have i: "props (nodes exampleImage 1) K_src = Some (Str ''a.png'')"
    "props (nodes exampleImage 1) K_image = None"
    "redraws exampleImage = []" "kind (nodes exampleImage 1) = ImageShape"
    "cache exampleImage ''a.png'' = Some (Img 7 64 32)"
    by (simp_all add: exampleImage_def sceneOf_def newNode_def)
  note t1 = setProps_redraws [of exampleNested 1 "[0]" 5 "[F_x 5, F_zIndex 0]"]
  note t2 = setProps_redraws [of exampleNested 1 "[0]" 7 "[]"]
  note t3 = setProps_redraws [of exampleImage 1 "[0]" 0 "[F_other K_src (Str ''a.png'')]"]
  have a: "set_x exampleNested 1 5 = Some exampleNested"
    "assignAll exampleNested 1 [F_x 5, F_zIndex 0] = Some exampleNested"
    "map_option redraws (setProps exampleNested 1 [F_x 5, F_zIndex 0]) = Some [1, 0]"
    using t1 exampleNested_chain x by auto
  have b: "set_x exampleNested 1 7 =
     Some ((upd exampleNested 1 (\<lambda>nd. nd\<lparr>node_x := 7\<rparr>))\<lparr>redraws := [1, 0]\<rparr>)"
    using t2 exampleNested_chain x by simp
  have c: "map_option redraws (setProps exampleImage 1 [F_other K_src (Str ''a.png'')]) =
     Some [1, 0, 1, 0]"
    using t3 exampleImage_chain i by (auto simp: truthy_def strOr_def)
  show ?thesis using a b c by simp
qed

text \<open>
  The claim as first stated (no redraw request when every supplied field equals the
  current value) fails: \<open>setProps({x: 5})\<close> on the rectangle of \<open>exampleNested\<close>,
  whose \<open>x\<close> is 5, calls \<open>requestRedraw\<close> on the rectangle and on its parent.
\<close>

theorem setProps_unchanged_counterexample:
  "fieldCurrent (nodes exampleNested 1) (F_x 5) \<and> redraws exampleNested = [] \<and>
   map_option redraws (setProps exampleNested 1 [F_x 5]) = Some [1, 0]"
proof -
  have x: "node_x (nodes exampleNested 1) = 5" "redraws exampleNested = []"
    "kind (nodes exampleNested 1) = RectShape"
    by (simp_all add: exampleNested_def sceneOf_def newNode_def)
  then show ?thesis
    using setProps_current [OF exampleNested_chain, of "[F_x 5]"] by auto
qed

section \<open>Z-order of the children\<close>

lemma chain_irrefl: "chain N n (c # ps) \<Longrightarrow> c \<noteq> n"
proof
  assume a: "chain N n (c # ps)" and "c = n"
  then have "parent (N n) = Some n" "chain N n ps"
    by (auto elim: chain.cases)
  then have "chain N n (n # ps)" by (rule chain.chain_step)
  with \<open>chain N n ps\<close> have "ps = n # ps" by (rule chain_unique)
  then show False by simp
qed

lemma chain_parent: "chain N n (c # ps) \<Longrightarrow> parent (N n) = Some c"
  by (auto elim: chain.cases)

lemma add_chain:
  assumes "chain (nodes s) c ps" "n \<notin> set (c # ps)"
  shows "\<exists>s'. add s c n = Some s' \<and>
           children (nodes s' c) =
             sort_key (\<lambda>i. zIndex (nodes s i)) (children (nodes s c) @ [n]) \<and>
           (\<forall>i. zIndex (nodes s' i) = zIndex (nodes s i)) \<and>
           parent (nodes s' n) = Some c \<and>
           redraws s' = redraws s @ c # ps"
proof -
  define s2 where "s2 = upd (upd s n (\<lambda>nd. nd\<lparr>parent := Some c\<rparr>)) c
                               (\<lambda>nd. nd\<lparr>children := children nd @ [n]\<rparr>)"
  have z2: "zIndex (nodes s2 i) = zIndex (nodes s i)" for i by (simp add: s2_def)
  have c2: "children (nodes s2 c) = children (nodes s c) @ [n]" by (simp add: s2_def)
  have p2: "parent (nodes s2 n) = Some c" by (simp add: s2_def)
  have "chain (nodes (sortChildren s2 c)) c ps"
    using assms(1)
  proof (rule chain_cong)
    show "\<forall>i \<in> set (c # ps). parent (nodes (sortChildren s2 c) i) = parent (nodes s i)"
      using assms(2) by (auto simp: sortChildren_def s2_def)
  qed
  then have "requestRedraw (sortChildren s2 c) c =
               Some ((sortChildren s2 c)\<lparr>redraws := redraws (sortChildren s2 c) @ c # ps\<rparr>)"
    using requestRedraw_chain by blast
  then have "add s c n = Some ((sortChildren s2 c)\<lparr>redraws := redraws (sortChildren s2 c) @ c # ps\<rparr>)"
    by (simp add: add_def Let_def s2_def)
  moreover have "redraws (sortChildren s2 c) = redraws s"
    by (simp add: sortChildren_def s2_def)
  moreover have "n \<noteq> c" using assms(2) by auto
  ultimately show ?thesis
    using p2 by (simp add: sortChildren_def z2 c2)
qed

lemma drawsOf_styleOps [simp]: "drawsOf (styleOps nd) = []"
  by (simp add: styleOps_def)

lemma drawsOf_clipOps [simp]: "drawsOf (clipOps nd) = []"
  by (simp add: clipOps_def)

lemma exampleZ_sortedTree: "sortedTree exampleZ"
  by (simp add: sortedTree_def exampleZ_def sceneOf_def newNode_def isContainer_def)

lemma setProps_zIndex_chain:
  assumes c: "chain (nodes s) n (c # ps)" and k: "isContainer (nodes s c)"
    and z: "zIndex (nodes s n) \<noteq> z"
  shows "\<exists>s'. setProps s n [F_zIndex z] = Some s' \<and>
           nodes s' = nodes (upd (sortChildren (upd s n (\<lambda>nd. nd\<lparr>zIndex := z\<rparr>)) c) n
                               (\<lambda>nd. updateEvents (props nd) nd))"
proof -
  define s1 where "s1 = (upd s n (\<lambda>nd. nd\<lparr>zIndex := z\<rparr>))\<lparr>redraws := redraws s @ n # c # ps\<rparr>"
  have "set_zIndex s n z = Some (sortChildren s1 c)"
    using set_zIndex_chain [OF c z] chain_parent [OF c] k by (simp add: Let_def s1_def)
  then have a: "assignAll s n [F_zIndex z] = Some (sortChildren s1 c)"
    by (simp add: assignField_def)
  define s2 where "s2 = upd (sortChildren s1 c) n (\<lambda>nd. updateEvents (props nd) nd)"
  have "chain (nodes s2) n (c # ps)"
    using c by (rule chain_cong) (simp add: s2_def sortChildren_def s1_def)
  then have "requestRedraw s2 n = Some (s2\<lparr>redraws := redraws s2 @ n # c # ps\<rparr>)"
    using requestRedraw_chain by blast
  then have "nodeSetProps s n [F_zIndex z] = Some (s2\<lparr>redraws := redraws s2 @ n # c # ps\<rparr>)"
    using a by (simp add: nodeSetProps_def s2_def [symmetric])
  then have "setProps s n [F_zIndex z] = Some (s2\<lparr>redraws := redraws s2 @ n # c # ps\<rparr>)"
    by (simp add: setProps_def truthy_def)
  then show ?thesis
    by (simp add: s2_def sortChildren_def s1_def upd_def)
qed

lemma zIndex_change_facts:
  assumes c: "chain (nodes s) n (c # ps)" and k: "isContainer (nodes s c)"
    and z: "zIndex (nodes s n) \<noteq> z"
  shows "\<exists>s'. setProps s n [F_zIndex z] = Some s' \<and>
           (\<forall>i. zIndex (nodes s' i) = (if i = n then z else zIndex (nodes s i))) \<and>
           (\<forall>i. kind (nodes s' i) = kind (nodes s i)) \<and>
           children (nodes s' c) =
             sort_key (\<lambda>i. if i = n then z else zIndex (nodes s i)) (children (nodes s c))"
proof -
  from setProps_zIndex_chain [OF assms] obtain s'
    where s': "setProps s n [F_zIndex z] = Some s'"
      "nodes s' = nodes (upd (sortChildren (upd s n (\<lambda>nd. nd\<lparr>zIndex := z\<rparr>)) c) n
                               (\<lambda>nd. updateEvents (props nd) nd))"
    by blast
  have cn: "c \<noteq> n" using c by (rule chain_irrefl)
  have zs: "zIndex (nodes s' i) = (if i = n then z else zIndex (nodes s i))" for i
    by (simp add: s'(2) sortChildren_def)
  have kd: "kind (nodes s' i) = kind (nodes s i)" for i
    by (simp add: s'(2) sortChildren_def)
  have keys: "(\<lambda>i. zIndex (if i = n then (nodes s n)\<lparr>zIndex := z\<rparr> else nodes s i)) =
              (\<lambda>i. if i = n then z else zIndex (nodes s i))"
    by (rule ext) simp
  have cs: "children (nodes s' c) =
             sort_key (\<lambda>i. if i = n then z else zIndex (nodes s i)) (children (nodes s c))"
    using cn by (simp add: s'(2) sortChildren_def keys)
  show ?thesis using s'(1) zs kd cs by blast
qed

lemma zIndex_change_sorts:
  assumes c: "chain (nodes s) n (c # ps)" and k: "isContainer (nodes s c)"
    and z: "zIndex (nodes s n) \<noteq> z"
  shows "\<exists>s'. setProps s n [F_zIndex z] = Some s' \<and> zIndex (nodes s' n) = z \<and>
           sorted (map (\<lambda>i. zIndex (nodes s' i)) (children (nodes s' c))) \<and>
           set (children (nodes s' c)) = set (children (nodes s c))"
proof -
  from zIndex_change_facts [OF assms] obtain s'
    where s': "setProps s n [F_zIndex z] = Some s'"
      "\<forall>i. zIndex (nodes s' i) = (if i = n then z else zIndex (nodes s i))"
      "children (nodes s' c) =
         sort_key (\<lambda>i. if i = n then z else zIndex (nodes s i)) (children (nodes s c))"
    by blast
  have zn: "zIndex (nodes s' n) = z" using s'(2) by simp
  have "(\<lambda>i. zIndex (nodes s' i)) = (\<lambda>i. if i = n then z else zIndex (nodes s i))"
    using s'(2) by (intro ext) simp
  then have "sorted (map (\<lambda>i. zIndex (nodes s' i)) (children (nodes s' c)))"
    using s'(3) by simp
  then show ?thesis using s'(1,3) zn by simp
qed

lemma render_by_culled:
  "kind (nodes s n) \<noteq> TransformerNode \<Longrightarrow>
     render s n viewport ctx =
       Option.bind (culled s viewport n) (\<lambda>c.
         if c then Some ctx
         else Option.bind
                (renderRun s viewport (Draw n)
                   (ctx @ Save # styleOps (nodes s n) @ [Transform (getTransform (nodes s n))]))
                (\<lambda>ctx'. Some (ctx' @ [Restore])))"
  unfolding render_def culled_def by (subst renderRun.simps) simp

lemma transformerRender_ctx:
  "transformerRender s n [] = Some ops \<Longrightarrow> transformerRender s n ctx = Some (ctx @ ops)"
  by (auto simp: transformerRender_def split: option.splits bind_splits)

lemma paintOrder_draws:
  "paintOrder s viewport n ds \<Longrightarrow>
     (\<And>ctx. \<exists>ctx'. render s n viewport ctx = Some ctx' \<and> drawsOf ctx' = drawsOf ctx @ ds)"
  "paintOrderEach s viewport ids ds \<Longrightarrow>
     (\<And>ctx. \<exists>ctx'. renderRun s viewport (RenderEach ids) ctx = Some ctx' \<and>
              drawsOf ctx' = drawsOf ctx @ ds)"
proof (induction rule: paintOrder_paintOrderEach.inducts)
  case (po_transformer s n ops viewport)
  have "render s n viewport ctx = Some (ctx @ ops)"
    using po_transformer by (simp add: render_transformer transformerRender_ctx)
  moreover have "drawsOf ops = []"
    using transformerRender_draws [OF po_transformer(2)] by simp
  ultimately show ?case by simp
next
  case (po_culled s n viewport)
  then show ?case by (simp add: render_by_culled)
next
  case (po_shape s n viewport)
  then have "kind (nodes s n) \<noteq> TransformerNode" by (auto simp: isContainer_def)
  then show ?case using po_shape by (simp add: render_by_culled draw_shape)
next
  case (po_container s n viewport ds)
  define ctx1 where "ctx1 = (ctx @ Save # styleOps (nodes s n) @
                   [Transform (getTransform (nodes s n))]) @ DrawCall n # clipOps (nodes s n)"
  from po_container.IH [of ctx1] obtain ctx'
    where e: "renderRun s viewport (RenderEach (children (nodes s n))) ctx1 = Some ctx'"
      "drawsOf ctx' = drawsOf ctx1 @ ds"
    by blast
  have "render s n viewport ctx = Some (ctx' @ [Restore])"
    using po_container.hyps e(1)
    by (simp add: render_by_culled draw_container isContainer_def ctx1_def)
  then show ?case using e(2) by (simp add: ctx1_def)
next
  case (po_nil s viewport)
  show ?case by simp
next
  case (po_cons s viewport i d ids ds)
  from po_cons.IH(1) [of ctx] obtain ctx1
    where a: "render s i viewport ctx = Some ctx1" "drawsOf ctx1 = drawsOf ctx @ d"
    by blast
  from po_cons.IH(2) [of ctx1] obtain ctx'
    where b: "renderRun s viewport (RenderEach ids) ctx1 = Some ctx'"
      "drawsOf ctx' = drawsOf ctx1 @ ds"
    by blast
  show ?case using a b by (simp add: renderEach_Cons)
qed

lemma paintOrderEach_shapes:
  "\<forall>i \<in> set ids. \<not> isContainer (nodes s i) \<and> culled s viewport i \<noteq> None \<Longrightarrow>
     paintOrderEach s viewport ids (filter (\<lambda>i. culled s viewport i = Some False) ids)"
proof (induction ids)
  case Nil
  show ?case by (simp add: po_nil)
next
  case (Cons i ids)
  then have rest: "paintOrderEach s viewport ids
                     (filter (\<lambda>i. culled s viewport i = Some False) ids)"
    by simp
  from Cons.prems have i: "\<not> isContainer (nodes s i)" "culled s viewport i \<noteq> None"
    by simp_all
  show ?case
  proof (cases "culled s viewport i = Some False")
    case True
    then have "paintOrder s viewport i [i]" using i(1) by (simp add: po_shape)
    from po_cons [OF this rest] show ?thesis using True by simp
  next
    case False
    with i(2) have t: "culled s viewport i = Some True" by auto
    have "kind (nodes s i) \<noteq> TransformerNode" using i(1) by (auto simp: isContainer_def)
    then have "paintOrder s viewport i []" using t by (simp add: po_culled)
    from po_cons [OF this rest] show ?thesis using False by simp
  qed
qed

lemma render_container_shapes:
  assumes "kind (nodes s c) = ContainerNode" "culled s viewport c = Some False"
    and "\<forall>i \<in> set (children (nodes s c)). \<not> isContainer (nodes s i) \<and> culled s viewport i \<noteq> None"
  shows "\<exists>ctx'. render s c viewport ctx = Some ctx' \<and>
           drawsOf ctx' = drawsOf ctx @
             c # filter (\<lambda>i. culled s viewport i = Some False) (children (nodes s c))"
  using paintOrder_draws(1) [OF po_container [OF assms(1,2) paintOrderEach_shapes [OF assms(3)]]]
  by simp

lemma perform_sortedTree:
  assumes "sortedTree s" "wellFormed s cl" "perform s cl = Some s'"
  shows "sortedTree s'"
proof (cases cl)
  case (Add c n)
  then show ?thesis using assms add_sortedTree [of s n c s'] by (simp add: wellFormed_def)
next
  case (Remove c n)
  then show ?thesis using assms remove_sortedTree [of s c n s'] by (simp add: wellFormed_def)
next
  case (SetProps n flds)
  then show ?thesis using assms setProps_sortedTree by simp
next
  case (SetZIndex n z)
  then show ?thesis using assms set_zIndex_sortedTree by simp
qed

lemma performAll_sortedTree:
  "sortedTree s \<Longrightarrow> disciplined s cls \<Longrightarrow> performAll s cls = Some s' \<Longrightarrow> sortedTree s'"
proof (induction cls arbitrary: s)
  case Nil
  then show ?case by simp
next
  case (Cons cl cls)
  from Cons.prems(3) obtain s1 where p: "perform s cl = Some s1" "performAll s1 cls = Some s'"
    by (auto split: bind_splits)
  have "sortedTree s1"
    using perform_sortedTree [OF Cons.prems(1) _ p(1)] Cons.prems(2) by simp
  moreover have "disciplined s1 cls" using Cons.prems(2) p(1) by simp
  ultimately show ?case using Cons.IH p(2) by blast
qed

lemma sortedTree_new: "sortedTree (sceneOf (\<lambda>i. newNode (k i)))"
  by (simp add: sortedTree_def sceneOf_def newNode_def)

lemma example_reorder:
  assumes k: "kind (nodes s c) = ContainerNode" and ch: "children (nodes s c) = [a, n, b]"
    and za: "zIndex (nodes s a) = 5" and zn: "zIndex (nodes s n) = 10"
    and zb: "zIndex (nodes s b) = 20"
    and sh: "\<forall>i \<in> {a, n, b}. \<not> isContainer (nodes s i)"
    and c: "chain (nodes s) n (c # ps)"
  shows "\<exists>s'. setProps s n [F_zIndex 30] = Some s' \<and> children (nodes s' c) = [a, b, n] \<and>
           map (\<lambda>i. zIndex (nodes s' i)) [a, b, n] = [5, 20, 30] \<and>
           (\<forall>viewport ctx.
              culled s' viewport c = Some False \<and> culled s' viewport a = Some False \<and>
              culled s' viewport b = Some False \<and> culled s' viewport n = Some False \<longrightarrow>
                (\<exists>ctx'. render s' c viewport ctx = Some ctx' \<and>
                        drawsOf ctx' = drawsOf ctx @ [c, a, b, n]))"
proof -
  have kc: "isContainer (nodes s c)" using k by (simp add: isContainer_def)
  have ne: "a \<noteq> n" "b \<noteq> n" using za zn zb by auto
  from zIndex_change_facts [OF c kc, of 30] zn obtain s'
    where s': "setProps s n [F_zIndex 30] = Some s'"
      "\<forall>i. zIndex (nodes s' i) = (if i = n then 30 else zIndex (nodes s i))"
      "\<forall>i. kind (nodes s' i) = kind (nodes s i)"
      "children (nodes s' c) =
         sort_key (\<lambda>i. if i = n then 30 else zIndex (nodes s i)) (children (nodes s c))"
    by auto
  have cs: "children (nodes s' c) = [a, b, n]"
    using s'(4) ch ne za zb by simp
  have zs: "map (\<lambda>i. zIndex (nodes s' i)) [a, b, n] = [5, 20, 30]"
    using s'(2) ne za zb by simp
  have kd: "kind (nodes s' c) = ContainerNode" using k s'(3) by simp
  have lf: "\<not> isContainer (nodes s' a)" "\<not> isContainer (nodes s' b)" "\<not> isContainer (nodes s' n)"
    using sh s'(3) by (simp_all add: isContainer_def)
  have r: "\<forall>viewport ctx.
              culled s' viewport c = Some False \<and> culled s' viewport a = Some False \<and>
              culled s' viewport b = Some False \<and> culled s' viewport n = Some False \<longrightarrow>
                (\<exists>ctx'. render s' c viewport ctx = Some ctx' \<and>
                        drawsOf ctx' = drawsOf ctx @ [c, a, b, n])"
  proof (intro allI impI)
    fix viewport ctx
    assume cu: "culled s' viewport c = Some False \<and> culled s' viewport a = Some False \<and>
        culled s' viewport b = Some False \<and> culled s' viewport n = Some False"
    have all: "\<forall>i \<in> set (children (nodes s' c)).
                 \<not> isContainer (nodes s' i) \<and> culled s' viewport i \<noteq> None"
      using cs lf cu by auto
    have "filter (\<lambda>i. culled s' viewport i = Some False) (children (nodes s' c)) = [a, b, n]"
      using cs cu by simp
    then show "\<exists>ctx'. render s' c viewport ctx = Some ctx' \<and>
                 drawsOf ctx' = drawsOf ctx @ [c, a, b, n]"
      using render_container_shapes [OF kd _ all, of ctx] cu by simp
  qed
  show ?thesis
    by (rule exI [of _ s']) (intro conjI s'(1) cs zs r)
qed

lemma add_root:
  assumes "parent (nodes s c) = None" "n \<noteq> c"
  shows "\<exists>s'. add s c n = Some s' \<and>
           children (nodes s' c) =
             sort_key (\<lambda>i. zIndex (nodes s i)) (children (nodes s c) @ [n]) \<and>
           (\<forall>d. d \<noteq> c \<longrightarrow> children (nodes s' d) = children (nodes s d)) \<and>
           (\<forall>i. zIndex (nodes s' i) = zIndex (nodes s i)) \<and>
           (\<forall>i. kind (nodes s' i) = kind (nodes s i)) \<and>
           (\<forall>i. parent (nodes s' i) = (if i = n then Some c else parent (nodes s i)))"
proof -
  define s2 where "s2 = upd (upd s n (\<lambda>nd. nd\<lparr>parent := Some c\<rparr>)) c
                               (\<lambda>nd. nd\<lparr>children := children nd @ [n]\<rparr>)"
  have z2: "zIndex (nodes s2 i) = zIndex (nodes s i)" for i by (simp add: s2_def)
  have c2: "children (nodes s2 c) = children (nodes s c) @ [n]" by (simp add: s2_def)
  have "parent (nodes (sortChildren s2 c) c) = None"
    using assms by (simp add: sortChildren_def s2_def)
  then have "requestRedraw (sortChildren s2 c) c =
               Some ((sortChildren s2 c)\<lparr>redraws := redraws (sortChildren s2 c) @ [c]\<rparr>)"
    by (rule requestRedraw_root)
  then have a: "add s c n =
               Some ((sortChildren s2 c)\<lparr>redraws := redraws (sortChildren s2 c) @ [c]\<rparr>)"
    by (simp add: add_def Let_def s2_def)
  have keys: "(\<lambda>i. zIndex (nodes s2 i)) = (\<lambda>i. zIndex (nodes s i))"
    by (rule ext) (rule z2)
  show ?thesis
    unfolding a
    by (rule exI, intro conjI refl)
       (simp_all add: sortChildren_def keys c2, simp_all add: s2_def)
qed

lemma exampleDeep_bounds:
  "getGlobalBounds exampleDeep 3 = Some (Rect 0 0 50 50)"
  "getGlobalBounds exampleDeep 2 = Some (Rect 2000 0 50 50)"
  "getGlobalBounds exampleDeep 1 = Some (Rect 0 0 50 50)"
  "getGlobalBounds exampleDeep 0 = Some (Rect 0 0 2050 50)"
proof -
  have t: "getTransform (nodes exampleDeep 0) = Matrix2D 1 0 0 1 0 0"
    "getTransform (nodes exampleDeep 1) = Matrix2D 1 0 0 1 0 0"
    "getTransform (nodes exampleDeep 2) = Matrix2D 1 0 0 1 2000 0"
    "getTransform (nodes exampleDeep 3) = Matrix2D 1 0 0 1 0 0"
    by (simp_all add: exampleDeep_def sceneOf_def newNode_def getTransform_plain)
  have p: "parent (nodes exampleDeep 0) = None" "parent (nodes exampleDeep 1) = Some 0"
    "parent (nodes exampleDeep 2) = Some 0" "parent (nodes exampleDeep 3) = Some 1"
    by (simp_all add: exampleDeep_def sceneOf_def newNode_def)
  have g: "getGlobalTransform exampleDeep 0 = Some (Matrix2D 1 0 0 1 0 0)"
    "getGlobalTransform exampleDeep 1 = Some (Matrix2D 1 0 0 1 0 0)"
    "getGlobalTransform exampleDeep 2 = Some (Matrix2D 1 0 0 1 2000 0)"
    "getGlobalTransform exampleDeep 3 = Some (Matrix2D 1 0 0 1 0 0)"
    using t p by (simp_all add: getGlobalTransform_def multiply_def)
  have ch: "children (nodes exampleDeep 0) = [1, 2]" "children (nodes exampleDeep 1) = [3]"
    "isContainer (nodes exampleDeep 0)" "isContainer (nodes exampleDeep 1)"
    by (simp_all add: exampleDeep_def sceneOf_def newNode_def isContainer_def)
  have sb3: "getSelfBounds exampleDeep 3 = Some (Rect 0 0 50 50)"
    and sb2: "getSelfBounds exampleDeep 2 = Some (Rect 0 0 50 50)"
    by (simp_all add: getSelfBounds_def isContainer_def shapeBounds_def numOr_def
        exampleDeep_def sceneOf_def newNode_def)
  have e1: "extend None (Matrix2D 1 0 0 1 0 0) (Rect 0 0 50 50) = (0, 0, 50, 50)"
    by (simp add: extend_def Let_def transformPoint_def min4_def max4_def)
  have e2: "extend (Some (0, 0, 50, 50)) (Matrix2D 1 0 0 1 2000 0) (Rect 0 0 50 50) =
              (0, 0, 2050, 50)"
    by (simp add: extend_def Let_def transformPoint_def min4_def max4_def)
  have sb1: "getSelfBounds exampleDeep 1 = Some (Rect 0 0 50 50)"
    using ch sb3 t e1 by (simp add: getSelfBounds_def aggregate_Cons extentRect_def)
  have a0: "aggregate exampleDeep [1, 2] None = Some (Some (0, 0, 2050, 50))"
    using sb1 sb2 t e1 e2 by (simp add: aggregate_Cons)
  have sb0: "getSelfBounds exampleDeep 0 = Some (Rect 0 0 2050 50)"
    using ch a0 by (simp add: getSelfBounds_def extentRect_def)
  show "getGlobalBounds exampleDeep 3 = Some (Rect 0 0 50 50)"
    using sb3 g by (simp add: getGlobalBounds_def boundsOf_translate)
  show "getGlobalBounds exampleDeep 2 = Some (Rect 2000 0 50 50)"
    using sb2 g by (simp add: getGlobalBounds_def boundsOf_translate)
  show "getGlobalBounds exampleDeep 1 = Some (Rect 0 0 50 50)"
    using sb1 g by (simp add: getGlobalBounds_def boundsOf_translate)
  show "getGlobalBounds exampleDeep 0 = Some (Rect 0 0 2050 50)"
    using sb0 g by (simp add: getGlobalBounds_def boundsOf_translate)
qed

lemma exampleDeep_paintOrder:
  "paintOrder exampleDeep (Some (Rect 0 0 800 600)) 0 [0, 1, 3]"
proof -
  let ?vp = "Some (Rect 0 0 800 600)"
  have cu: "culled exampleDeep ?vp 0 = Some False" "culled exampleDeep ?vp 1 = Some False"
    "culled exampleDeep ?vp 2 = Some True" "culled exampleDeep ?vp 3 = Some False"
    by (simp_all add: culled_def exampleDeep_bounds isOutside_def del: One_nat_def)
  have k: "kind (nodes exampleDeep 0) = ContainerNode" "kind (nodes exampleDeep 1) = ContainerNode"
    "kind (nodes exampleDeep 2) \<noteq> TransformerNode" "\<not> isContainer (nodes exampleDeep 3)"
    "children (nodes exampleDeep 0) = [1, 2]" "children (nodes exampleDeep 1) = [3]"
    by (simp_all add: exampleDeep_def sceneOf_def newNode_def isContainer_def)
  have p3: "paintOrder exampleDeep ?vp 3 [3]"
    using k(4) cu(4) by (rule po_shape)
  have "paintOrderEach exampleDeep ?vp [3] ([3] @ [])"
    using p3 po_nil by (rule po_cons)
  then have "paintOrderEach exampleDeep ?vp (children (nodes exampleDeep 1)) [3]"
    using k(6) by simp
  with k(2) cu(2) have p1: "paintOrder exampleDeep ?vp 1 [1, 3]"
    by (rule po_container)
  have p2: "paintOrder exampleDeep ?vp 2 []"
    using k(3) cu(3) by (rule po_culled)
  have "paintOrderEach exampleDeep ?vp [2] ([] @ [])"
    using p2 po_nil by (rule po_cons)
  with p1 have "paintOrderEach exampleDeep ?vp [1, 2] ([1, 3] @ [] @ [])"
    by (rule po_cons)
  then have "paintOrderEach exampleDeep ?vp (children (nodes exampleDeep 0)) [1, 3]"
    using k(5) by simp
  with k(1) cu(1) show ?thesis
    by (rule po_container)
qed

text \<open>
  Claim C4, as amended.  In a store where each child is listed once, and by its
  parent, every container keeps its child list sorted ascending by z-index: the
  property holds of new nodes and, whenever it held before, of the store after
  \<open>add\<close> of a node that no container lists, after \<open>remove\<close>, after
  \<open>setProps\<close> and after the z-index setter, so it holds after every sequence of
  such calls.  \<open>add\<close> and a change of z-index return (in a store whose parent chain
  ends) with the list of the container sorted again, before anything else happens.
  The list is the paint order: \<open>render\<close> calls \<open>draw\<close> on a container and then
  on the subtrees of its children, one after the other in the order of the list, and
  of children that are shapes it paints those that are not culled in that order.
  After \<open>setProps({zIndex: 30})\<close> on the child with z-index 10, between siblings
  with z-indices 5 and 20, the children are drawn in the order of the z-indices 5,
  20, 30.
\<close>

theorem children_sorted_by_zIndex:
  "sortedTree (sceneOf (\<lambda>i. newNode (kinds i))) \<and>
   (sortedTree s \<longrightarrow>
      ((\<forall>d. isContainer (nodes s d) \<longrightarrow> n \<notin> set (children (nodes s d))) \<longrightarrow>
         (\<forall>s'. add s c n = Some s' \<longrightarrow> sortedTree s')) \<and>
      (isContainer (nodes s c) \<longrightarrow> (\<forall>s'. removeNode s c n = Some s' \<longrightarrow> sortedTree s')) \<and>
      (\<forall>s'. setProps s n flds = Some s' \<longrightarrow> sortedTree s') \<and>
      (\<forall>s'. set_zIndex s n z = Some s' \<longrightarrow> sortedTree s') \<and>
      (disciplined s calls \<longrightarrow> (\<forall>s'. performAll s calls = Some s' \<longrightarrow> sortedTree s'))) \<and>
   (chain (nodes s) c ps \<and> n \<notin> set (c # ps) \<longrightarrow>
      (\<exists>s'. add s c n = Some s' \<and>
            sorted (map (\<lambda>i. zIndex (nodes s' i)) (children (nodes s' c))) \<and>
            set (children (nodes s' c)) = insert n (set (children (nodes s c))))) \<and>
   (chain (nodes s) n (c # ps) \<and> isContainer (nodes s c) \<and> zIndex (nodes s n) \<noteq> z \<longrightarrow>
      (\<exists>s'. setProps s n [F_zIndex z] = Some s' \<and> zIndex (nodes s' n) = z \<and>
            sorted (map (\<lambda>i. zIndex (nodes s' i)) (children (nodes s' c))) \<and>
            set (children (nodes s' c)) = set (children (nodes s c)))) \<and>
   (paintOrder s viewport c ds \<longrightarrow>
      (\<exists>ctx'. render s c viewport ctx = Some ctx' \<and> drawsOf ctx' = drawsOf ctx @ ds)) \<and>
   (kind (nodes s c) = ContainerNode \<and> culled s viewport c = Some False \<and>
    (\<forall>i \<in> set (children (nodes s c)).
       \<not> isContainer (nodes s i) \<and> culled s viewport i \<noteq> None) \<longrightarrow>
      (\<exists>ctx'. render s c viewport ctx = Some ctx' \<and>
              drawsOf ctx' = drawsOf ctx @
                c # filter (\<lambda>i. culled s viewport i = Some False) (children (nodes s c)))) \<and>
   (kind (nodes s c) = ContainerNode \<and> children (nodes s c) = [a, n, b] \<and>
    zIndex (nodes s a) = 5 \<and> zIndex (nodes s n) = 10 \<and> zIndex (nodes s b) = 20 \<and>
    (\<forall>i \<in> {a, n, b}. \<not> isContainer (nodes s i)) \<and> chain (nodes s) n (c # ps) \<longrightarrow>
      (\<exists>s'. setProps s n [F_zIndex 30] = Some s' \<and> children (nodes s' c) = [a, b, n] \<and>
           map (\<lambda>i. zIndex (nodes s' i)) [a, b, n] = [5, 20, 30] \<and>
           (\<forall>viewport ctx.
              culled s' viewport c = Some False \<and> culled s' viewport a = Some False \<and>
              culled s' viewport b = Some False \<and> culled s' viewport n = Some False \<longrightarrow>
                (\<exists>ctx'. render s' c viewport ctx = Some ctx' \<and>
                        drawsOf ctx' = drawsOf ctx @ [c, a, b, n]))))"
proof (intro conjI impI allI)
  show "sortedTree (sceneOf (\<lambda>i. newNode (kinds i)))"
    by (rule sortedTree_new)
next
  assume "chain (nodes s) c ps \<and> n \<notin> set (c # ps)"
  then obtain s' where "add s c n = Some s'"
    "children (nodes s' c) = sort_key (\<lambda>i. zIndex (nodes s i)) (children (nodes s c) @ [n])"
    "\<forall>i. zIndex (nodes s' i) = zIndex (nodes s i)"
    using add_chain [of s c ps n] by blast
  then show "\<exists>s'. add s c n = Some s' \<and>
            sorted (map (\<lambda>i. zIndex (nodes s' i)) (children (nodes s' c))) \<and>
            set (children (nodes s' c)) = insert n (set (children (nodes s c)))"
    by simp
next
  assume "chain (nodes s) n (c # ps) \<and> isContainer (nodes s c) \<and> zIndex (nodes s n) \<noteq> z"
  then show "\<exists>s'. setProps s n [F_zIndex z] = Some s' \<and> zIndex (nodes s' n) = z \<and>
            sorted (map (\<lambda>i. zIndex (nodes s' i)) (children (nodes s' c))) \<and>
            set (children (nodes s' c)) = set (children (nodes s c))"
    using zIndex_change_sorts by blast
next
  assume "paintOrder s viewport c ds"
  then show "\<exists>ctx'. render s c viewport ctx = Some ctx' \<and> drawsOf ctx' = drawsOf ctx @ ds"
    by (rule paintOrder_draws(1))
next
  assume "kind (nodes s c) = ContainerNode \<and> culled s viewport c = Some False \<and>
    (\<forall>i \<in> set (children (nodes s c)).
       \<not> isContainer (nodes s i) \<and> culled s viewport i \<noteq> None)"
  then show "\<exists>ctx'. render s c viewport ctx = Some ctx' \<and>
              drawsOf ctx' = drawsOf ctx @
                c # filter (\<lambda>i. culled s viewport i = Some False) (children (nodes s c))"
    using render_container_shapes [of s c viewport ctx] by blast
next
  assume "kind (nodes s c) = ContainerNode \<and> children (nodes s c) = [a, n, b] \<and>
    zIndex (nodes s a) = 5 \<and> zIndex (nodes s n) = 10 \<and> zIndex (nodes s b) = 20 \<and>
    (\<forall>i \<in> {a, n, b}. \<not> isContainer (nodes s i)) \<and> chain (nodes s) n (c # ps)"
  then show "\<exists>s'. setProps s n [F_zIndex 30] = Some s' \<and> children (nodes s' c) = [a, b, n] \<and>
           map (\<lambda>i. zIndex (nodes s' i)) [a, b, n] = [5, 20, 30] \<and>
           (\<forall>viewport ctx.
              culled s' viewport c = Some False \<and> culled s' viewport a = Some False \<and>
              culled s' viewport b = Some False \<and> culled s' viewport n = Some False \<longrightarrow>
                (\<exists>ctx'. render s' c viewport ctx = Some ctx' \<and>
                        drawsOf ctx' = drawsOf ctx @ [c, a, b, n]))"
    using example_reorder [of s c a n b ps] by blast
qed (blast intro: add_sortedTree remove_sortedTree setProps_sortedTree set_zIndex_sortedTree
       performAll_sortedTree)+

theorem children_sorted_by_zIndex_witness:
  "sortedTree exampleZ \<and>
   (\<exists>s' ctx'. setProps exampleZ 1 [F_zIndex 30] = Some s' \<and> sortedTree s' \<and>
      children (nodes s' 0) = [2, 3, 1] \<and>
      map (\<lambda>i. zIndex (nodes s' i)) [2, 3, 1] = [5, 20, 30] \<and>
      render s' 0 None [] = Some ctx' \<and> drawsOf ctx' = [0, 2, 3, 1]) \<and>
   (\<exists>ctx'. render exampleDeep 0 (Some (Rect 0 0 800 600)) [] = Some ctx' \<and>
      drawsOf ctx' = [0, 1, 3]) \<and>
   (\<exists>s'. performAll exampleTwo [Add 0 2, Add 0 3, SetProps 2 [F_zIndex 50]] = Some s' \<and>
      sortedTree s' \<and> zOrder 0 s' = [10, 50])"
proof -
  have c: "chain (nodes exampleZ) 1 [0]"
    by (intro chain.intros) (simp_all add: exampleZ_def sceneOf_def newNode_def)
  have f: "kind (nodes exampleZ 0) = ContainerNode" "children (nodes exampleZ 0) = [2, 1, 3]"
    "zIndex (nodes exampleZ 2) = 5" "zIndex (nodes exampleZ 1) = 10"
    "zIndex (nodes exampleZ 3) = 20"
    "\<forall>i \<in> {2, 1, 3}. \<not> isContainer (nodes exampleZ i)"
    by (simp_all add: exampleZ_def sceneOf_def newNode_def isContainer_def)
  note t = children_sorted_by_zIndex
    [of "\<lambda>_. BaseNode" exampleZ 1 0 "[F_zIndex 30]" 30 "[]" "[]" None "[]" "[]" 2 3]
  note t7 = t [THEN conjunct2, THEN conjunct2, THEN conjunct2, THEN conjunct2,
                THEN conjunct2, THEN conjunct2]
  have "\<exists>s'. setProps exampleZ 1 [F_zIndex 30] = Some s' \<and> children (nodes s' 0) = [2, 3, 1] \<and>
           map (\<lambda>i. zIndex (nodes s' i)) [2, 3, 1] = [5, 20, 30] \<and>
           (\<forall>viewport ctx.
              culled s' viewport 0 = Some False \<and> culled s' viewport 2 = Some False \<and>
              culled s' viewport 3 = Some False \<and> culled s' viewport 1 = Some False \<longrightarrow>
                (\<exists>ctx'. render s' 0 viewport ctx = Some ctx' \<and>
                        drawsOf ctx' = drawsOf ctx @ [0, 2, 3, 1]))"
    by (rule mp [OF t7]) (intro conjI f c)
  then obtain s' where r: "setProps exampleZ 1 [F_zIndex 30] = Some s'"
    "children (nodes s' 0) = [2, 3, 1]"
    "map (\<lambda>i. zIndex (nodes s' i)) [2, 3, 1] = [5, 20, 30]"
    and rn: "\<forall>viewport ctx.
              culled s' viewport 0 = Some False \<and> culled s' viewport 2 = Some False \<and>
              culled s' viewport 3 = Some False \<and> culled s' viewport 1 = Some False \<longrightarrow>
                (\<exists>ctx'. render s' 0 viewport ctx = Some ctx' \<and>
                        drawsOf ctx' = drawsOf ctx @ [0, 2, 3, 1])"
    by (elim exE conjE)
  from rn [rule_format, of None "[]"] obtain ctx'
    where d: "render s' 0 None [] = Some ctx'" "drawsOf ctx' = [0, 2, 3, 1]"
    by (auto simp: culled_def)
  note t2 = t [THEN conjunct2, THEN conjunct1]
  have st: "sortedTree s'" using t2 exampleZ_sortedTree r(1) by blast
  have first: "\<exists>s' ctx'. setProps exampleZ 1 [F_zIndex 30] = Some s' \<and> sortedTree s' \<and>
      children (nodes s' 0) = [2, 3, 1] \<and>
      map (\<lambda>i. zIndex (nodes s' i)) [2, 3, 1] = [5, 20, 30] \<and>
      render s' 0 None [] = Some ctx' \<and> drawsOf ctx' = [0, 2, 3, 1]"
    using r st d by auto
  note u = children_sorted_by_zIndex
    [of "\<lambda>_. BaseNode" exampleDeep 1 0 "[]" 0 "[]" "[]" "Some (Rect 0 0 800 600)" "[0, 1, 3]" "[]" 2 3]
  have second: "\<exists>ctx'. render exampleDeep 0 (Some (Rect 0 0 800 600)) [] = Some ctx' \<and>
      drawsOf ctx' = [0, 1, 3]"
    using u [THEN conjunct2, THEN conjunct2, THEN conjunct2, THEN conjunct2, THEN conjunct1]
      exampleDeep_paintOrder by simp
  have e: "parent (nodes exampleTwo 0) = None" "children (nodes exampleTwo 0) = []"
    "zIndex (nodes exampleTwo 2) = 0" "zIndex (nodes exampleTwo 3) = 10"
    "kind (nodes exampleTwo 0) = ContainerNode"
    "\<forall>d. children (nodes exampleTwo d) = []"
    by (simp_all add: exampleTwo_def sceneOf_def newNode_def)
  from add_root [of exampleTwo 0 2] e obtain s1 where s1: "add exampleTwo 0 2 = Some s1"
    "children (nodes s1 0) = [2]" "\<forall>d. d \<noteq> 0 \<longrightarrow> children (nodes s1 d) = []"
    "parent (nodes s1 0) = None" "parent (nodes s1 2) = Some 0"
    "zIndex (nodes s1 2) = 0" "zIndex (nodes s1 3) = 10" "kind (nodes s1 0) = ContainerNode"
    by auto
  from add_root [of s1 0 3] s1 obtain s2 where s2: "add s1 0 3 = Some s2"
    "children (nodes s2 0) = [2, 3]"
    "parent (nodes s2 0) = None" "parent (nodes s2 2) = Some 0"
    "zIndex (nodes s2 2) = 0" "zIndex (nodes s2 3) = 10" "kind (nodes s2 0) = ContainerNode"
    by auto
  have c2: "chain (nodes s2) 2 [0]"
    using s2(3,4) by (intro chain.intros)
  have k2: "isContainer (nodes s2 0)" using s2(7) by (simp add: isContainer_def)
  from zIndex_change_facts [OF c2 k2, of 50] s2(5) obtain s3
    where s3: "setProps s2 2 [F_zIndex 50] = Some s3"
      "\<forall>i. zIndex (nodes s3 i) = (if i = 2 then 50 else zIndex (nodes s2 i))"
      "children (nodes s3 0) =
         sort_key (\<lambda>i. if i = 2 then 50 else zIndex (nodes s2 i)) (children (nodes s2 0))"
    by auto
  have z3: "zOrder 0 s3 = [10, 50]"
    using s3(2,3) s2(2,6) by (simp add: zOrder_def)
  have run: "performAll exampleTwo [Add 0 2, Add 0 3, SetProps 2 [F_zIndex 50]] = Some s3"
    using s1(1) s2(1) s3(1) by simp
  have w1: "wellFormed exampleTwo (Add 0 2)"
    using e by (simp add: wellFormed_def isContainer_def)
  have nl: "3 \<notin> set (children (nodes s1 d))" for d
    using s1(2,3) by (cases "d = 0") simp_all
  have w2: "wellFormed s1 (Add 0 3)"
    using s1(8) nl by (simp add: wellFormed_def isContainer_def)
  have dis: "disciplined exampleTwo [Add 0 2, Add 0 3, SetProps 2 [F_zIndex 50]]"
    using w1 w2 s1(1) s2(1) s3(1) by (simp add: wellFormed_def)
  note v = children_sorted_by_zIndex
    [of "\<lambda>_. BaseNode" exampleTwo 1 0 "[]" 0
        "[Add 0 2, Add 0 3, SetProps 2 [F_zIndex 50]]" "[]" None "[]" "[]" 2 3]
  have "sortedTree exampleTwo"
    by (simp add: sortedTree_def exampleTwo_def sceneOf_def newNode_def)
  then have s3t: "sortedTree s3" using v [THEN conjunct2, THEN conjunct1] dis run by blast
  have third: "\<exists>s'. performAll exampleTwo [Add 0 2, Add 0 3, SetProps 2 [F_zIndex 50]] =
      Some s' \<and> sortedTree s' \<and> zOrder 0 s' = [10, 50]"
    using run s3t z3 by auto
  show ?thesis by (intro conjI exampleZ_sortedTree first second third)
qed

text \<open>
  The claim as first stated (the child list of every container is always sorted)
  fails, because \<open>add\<close> does not take the node out of a container that lists it
  already: after \<open>c0.add(r); c0.add(q); c1.add(r)\<close> the parent of \<open>r\<close> is
  \<open>c1\<close> and \<open>c0\<close> still lists \<open>r\<close>, so \<open>r.setProps({zIndex: 50})\<close>
  sorts the list of \<open>c1\<close> only, and \<open>c0\<close> lists the z-indices 50, 10.
\<close>

theorem children_unsorted_counterexample:
  "isContainer (nodes exampleTwo 0) \<and>
   map_option (zOrder 0)
     (performAll exampleTwo [Add 0 2, Add 0 3, Add 1 2, SetProps 2 [F_zIndex 50]]) =
     Some [50, 10] \<and>
   \<not> sorted [50, 10 :: real]"
proof -
  have e: "parent (nodes exampleTwo 0) = None" "children (nodes exampleTwo 0) = []"
    "children (nodes exampleTwo 1) = []" "parent (nodes exampleTwo 1) = None"
    "zIndex (nodes exampleTwo 2) = 0" "zIndex (nodes exampleTwo 3) = 10"
    "kind (nodes exampleTwo 1) = ContainerNode" "kind (nodes exampleTwo 0) = ContainerNode"
    by (simp_all add: exampleTwo_def sceneOf_def newNode_def)
  from add_root [of exampleTwo 0 2] e obtain s1 where s1: "add exampleTwo 0 2 = Some s1"
    "children (nodes s1 0) = [2]" "children (nodes s1 1) = []"
    "parent (nodes s1 0) = None" "parent (nodes s1 1) = None"
    "zIndex (nodes s1 2) = 0" "zIndex (nodes s1 3) = 10" "kind (nodes s1 1) = ContainerNode"
    by auto
  from add_root [of s1 0 3] s1 obtain s2 where s2: "add s1 0 3 = Some s2"
    "children (nodes s2 0) = [2, 3]" "children (nodes s2 1) = []"
    "parent (nodes s2 0) = None" "parent (nodes s2 1) = None"
    "zIndex (nodes s2 2) = 0" "zIndex (nodes s2 3) = 10" "kind (nodes s2 1) = ContainerNode"
    by auto
  from add_root [of s2 1 2] s2 obtain s3 where s3: "add s2 1 2 = Some s3"
    "children (nodes s3 0) = [2, 3]" "parent (nodes s3 2) = Some 1"
    "parent (nodes s3 1) = None"
    "zIndex (nodes s3 2) = 0" "zIndex (nodes s3 3) = 10" "kind (nodes s3 1) = ContainerNode"
    by auto
  have c: "chain (nodes s3) 2 [1]"
    using s3(3,4) by (intro chain.intros)
  have k: "isContainer (nodes s3 1)" using s3(7) by (simp add: isContainer_def)
  from setProps_zIndex_chain [OF c k, of 50] s3(5) obtain s4
    where s4: "setProps s3 2 [F_zIndex 50] = Some s4"
      "nodes s4 = nodes (upd (sortChildren (upd s3 2 (\<lambda>nd. nd\<lparr>zIndex := 50\<rparr>)) 1) 2
                               (\<lambda>nd. updateEvents (props nd) nd))"
    by auto
  have "children (nodes s4 0) = [2, 3]" "zIndex (nodes s4 2) = 50" "zIndex (nodes s4 3) = 10"
    using s3(2,6) by (simp_all add: s4(2) sortChildren_def)
  then have "zOrder 0 s4 = [50, 10]" by (simp add: zOrder_def)
  moreover have "performAll exampleTwo [Add 0 2, Add 0 3, Add 1 2, SetProps 2 [F_zIndex 50]] =
                   Some s4"
    using s1(1) s2(1) s3(1) s4(1) by simp
  ultimately show ?thesis using e(8) by (simp add: isContainer_def)
qed

section \<open>Dragging the handles of a transformer\<close>

lemma decompose_translation:
  "drotation (decompose (Matrix2D 1 0 0 1 tx ty)) = 0"
  by (simp add: decompose_def atan2_def Let_def)

lemma exampleGizmo_target:
  "getGlobalTransform exampleGizmo 0 = Some (Matrix2D 1 0 0 1 100 100)"
  "getSelfBounds exampleGizmo 0 = Some (Rect 0 0 100 100)"
  "getGlobalBounds exampleGizmo 0 = Some (Rect 100 100 100 100)"
proof -
  show g: "getGlobalTransform exampleGizmo 0 = Some (Matrix2D 1 0 0 1 100 100)"
    by (simp add: getGlobalTransform_def getTransform_plain exampleGizmo_def sceneOf_def
        newNode_def)
  show b: "getSelfBounds exampleGizmo 0 = Some (Rect 0 0 100 100)"
    by (simp add: getSelfBounds_def isContainer_def shapeBounds_def numOr_def
        exampleGizmo_def sceneOf_def newNode_def)
  show "getGlobalBounds exampleGizmo 0 = Some (Rect 100 100 100 100)"
    using g b by (simp add: getGlobalBounds_def boundsOf_translate)
qed

lemma exampleGizmo_hit_bottom_right:
  "hitTest exampleGizmo 1 (Point 200 200) =
     Some (Some 1, anchored exampleGizmo 1 ''bottom-right'' ''se-resize'')"
proof -
  have k: "kind (nodes exampleGizmo 1) = TransformerNode"
    "target (tstate (nodes exampleGizmo 1)) = Some 0"
    "numOr (props (nodes exampleGizmo 1) K_handleSize) 10 = 10"
    by (simp_all add: exampleGizmo_def sceneOf_def newNode_def newState_def numOr_def)
  have lp: "transformPoint (invert (Matrix2D 1 0 0 1 100 100)) (Point 200 200) = Point 100 100"
    by (simp add: invert_def transformPoint_def)
  have f: "find (onHandle (Point 100 100) 5) (handles (Rect 0 0 100 100)) =
             Some (100, 100, ''bottom-right'')"
    by (simp add: handles_def onHandle_def)
  define s1 where "s1 = upd exampleGizmo 1
       (\<lambda>nd. nd\<lparr>tstate := (tstate nd)\<lparr>activeAnchor := Some ''bottom-right''\<rparr>\<rparr>)"
  have g1: "getGlobalTransform s1 0 = Some (Matrix2D 1 0 0 1 100 100)"
    by (simp add: s1_def getGlobalTransform_def getTransform_plain exampleGizmo_def sceneOf_def
        newNode_def)
  have t1: "target (tstate (nodes s1 1)) = Some 0"
    by (simp add: s1_def exampleGizmo_def sceneOf_def newNode_def newState_def)
  have ix: "indexOf anchors ''bottom-right'' = Some 4"
    by (simp add: anchors_def)
  have c: "getCursorForAnchor s1 1 ''bottom-right'' = Some ''se-resize''"
    using g1 t1 ix
    by (simp add: getCursorForAnchor_def decompose_translation round_js_def rem_js_def
        cursors_def Let_def)
  show ?thesis
    using k lp f c exampleGizmo_target
    by (simp add: hitTest_transformer transformerHitTest_def anchored_def s1_def)
qed

lemma exampleGizmo_hit_top_left:
  "hitTest exampleGizmo 1 (Point 100 100) =
     Some (Some 1, anchored exampleGizmo 1 ''top-left'' ''nw-resize'')"
proof -
  have k: "kind (nodes exampleGizmo 1) = TransformerNode"
    "target (tstate (nodes exampleGizmo 1)) = Some 0"
    "numOr (props (nodes exampleGizmo 1) K_handleSize) 10 = 10"
    by (simp_all add: exampleGizmo_def sceneOf_def newNode_def newState_def numOr_def)
  have lp: "transformPoint (invert (Matrix2D 1 0 0 1 100 100)) (Point 100 100) = Point 0 0"
    by (simp add: invert_def transformPoint_def)
  have f: "find (onHandle (Point 0 0) 5) (handles (Rect 0 0 100 100)) = Some (0, 0, ''top-left'')"
    by (simp add: handles_def onHandle_def)
  define s1 where "s1 = upd exampleGizmo 1
       (\<lambda>nd. nd\<lparr>tstate := (tstate nd)\<lparr>activeAnchor := Some ''top-left''\<rparr>\<rparr>)"
  have g1: "getGlobalTransform s1 0 = Some (Matrix2D 1 0 0 1 100 100)"
    by (simp add: s1_def getGlobalTransform_def getTransform_plain exampleGizmo_def sceneOf_def
        newNode_def)
  have t1: "target (tstate (nodes s1 1)) = Some 0"
    by (simp add: s1_def exampleGizmo_def sceneOf_def newNode_def newState_def)
  have ix: "indexOf anchors ''top-left'' = Some 0"
    by (simp add: anchors_def)
  have c: "getCursorForAnchor s1 1 ''top-left'' = Some ''nw-resize''"
    using g1 t1 ix
    by (simp add: getCursorForAnchor_def decompose_translation round_js_def rem_js_def
        cursors_def Let_def)
  show ?thesis
    using k lp f c exampleGizmo_target
    by (simp add: hitTest_transformer transformerHitTest_def anchored_def s1_def)
qed

lemma exampleGizmo_hit_rotator:
  "hitTest exampleGizmo 1 (Point 150 70) =
     Some (Some 1, anchored exampleGizmo 1 ''rotator'' ''grab'')"
proof -
  have k: "kind (nodes exampleGizmo 1) = TransformerNode"
    "target (tstate (nodes exampleGizmo 1)) = Some 0"
    "numOr (props (nodes exampleGizmo 1) K_handleSize) 10 = 10"
    by (simp_all add: exampleGizmo_def sceneOf_def newNode_def newState_def numOr_def)
  have lp: "transformPoint (invert (Matrix2D 1 0 0 1 100 100)) (Point 150 70) = Point 50 (- 30)"
    by (simp add: invert_def transformPoint_def)
  have f: "find (onHandle (Point 50 (- 30)) 5) (handles (Rect 0 0 100 100)) = None"
    by (simp add: handles_def onHandle_def)
  have r: "onHandle (Point 50 (- 30)) 5 (50, - 30, ''rotator'')"
    by (simp add: onHandle_def)
  show ?thesis
    using k lp f r exampleGizmo_target
    by (simp add: hitTest_transformer transformerHitTest_def anchored_def)
qed

lemma dragMove_other_anchor:
  assumes "target (tstate (nodes s this)) = Some t"
    "activeAnchor (tstate (nodes s this)) = Some a"
    "a \<noteq> ''bottom-right''" "a \<noteq> ''rotator''"
  shows "handleDragMove s this e = Some s"
  using assms by (simp add: handleDragMove_def noAnchor_def Let_def)

lemma dragMove_rotator:
  assumes ts: "tstate (nodes s this) = ts" "target ts = Some t"
      "activeAnchor ts = Some ''rotator''"
    and c: "chain (nodes s) t ps"
    and b: "getGlobalBounds s t = Some b"
  shows "\<exists>s'. handleDragMove s this e = Some s' \<and>
     rotation (nodes s' t) =
       atan2 (globalY e - (ry b + height b / 2)) (globalX e - (rx b + width b / 2)) + pi / 2"
proof -
  define r where "r = atan2 (globalY e - (ry b + height b / 2))
                        (globalX e - (rx b + width b / 2)) + pi / 2"
  have "handleDragMove s this e = set_rotation s t r"
    using ts b by (simp add: handleDragMove_def noAnchor_def Let_def r_def)
  then show ?thesis
    using c by (auto simp: set_rotation_chain r_def)
qed

lemma plain_rect:
  assumes "nodes s n = (newNode RectShape)\<lparr>node_x := x, node_y := y,
             props := [K_width \<mapsto> Num w, K_height \<mapsto> Num h]\<rparr>"
    and "0 \<le> w" "0 \<le> h"
  shows "chain (nodes s) n []"
    and "getGlobalTransform s n = Some (Matrix2D 1 0 0 1 x y)"
    and "getSelfBounds s n = Some (Rect 0 0 w h)"
    and "getGlobalBounds s n = Some (Rect x y w h)"
proof -
  show "chain (nodes s) n []"
    by (rule chain.chain_root) (simp add: assms(1) newNode_def)
  show g: "getGlobalTransform s n = Some (Matrix2D 1 0 0 1 x y)"
    by (simp add: getGlobalTransform_def getTransform_plain assms(1) newNode_def)
  show b: "getSelfBounds s n = Some (Rect 0 0 w h)"
    by (simp add: getSelfBounds_def isContainer_def shapeBounds_def numOr_def assms(1)
        newNode_def)
  show "getGlobalBounds s n = Some (Rect x y w h)"
    using g b assms(2,3) by (simp add: getGlobalBounds_def boundsOf_translate)
qed

lemma dragged_nodes:
  "nodes (handleDragStart (anchored exampleGizmo 1 a c) 1 e) 0 =
     (newNode RectShape)\<lparr>node_x := 100, node_y := 100,
        props := [K_width \<mapsto> Num 100, K_height \<mapsto> Num 100]\<rparr>"
  "a \<noteq> [] \<Longrightarrow> tstate (nodes (handleDragStart (anchored exampleGizmo 1 a c) 1 e) 1) =
     newState\<lparr>target := Some 0, activeAnchor := Some a, startX := globalX e,
       startY := globalY e, startWidth := 100, startScaleX := 1, startScaleY := 1,
       startRotation := 0, startXPos := 100, startYPos := 100\<rparr>"
  by (simp_all add: handleDragStart_def anchored_def set_cursor_def noAnchor_def
      exampleGizmo_def sceneOf_def newNode_def newState_def numOr_def)

lemma set_scale_axes:
  assumes "chain (nodes s) t ps"
  shows "\<exists>s1 s2. (if wx then set_scaleX s t u else Some s) = Some s1 \<and>
           (if wy then set_scaleY s1 t v else Some s1) = Some s2 \<and>
           scaleX (nodes s2 t) = (if wx then u else scaleX (nodes s t)) \<and>
           scaleY (nodes s2 t) = (if wy then v else scaleY (nodes s t))"
proof -
  define s1 where "s1 = (if wx \<and> scaleX (nodes s t) \<noteq> u
     then (upd s t (\<lambda>nd. nd\<lparr>scaleX := u\<rparr>))\<lparr>redraws := redraws s @ t # ps\<rparr> else s)"
  have x: "(if wx then set_scaleX s t u else Some s) = Some s1"
    using assms by (simp add: set_scaleX_chain s1_def)
  have c1: "chain (nodes s1) t ps"
    using assms by (rule chain_cong) (simp add: s1_def)
  define s2 where "s2 = (if wy \<and> scaleY (nodes s1 t) \<noteq> v
     then (upd s1 t (\<lambda>nd. nd\<lparr>scaleY := v\<rparr>))\<lparr>redraws := redraws s1 @ t # ps\<rparr> else s1)"
  have y: "(if wy then set_scaleY s1 t v else Some s1) = Some s2"
    using c1 by (simp add: set_scaleY_chain s2_def)
  have x1: "scaleX (nodes s1 t) = (if wx then u else scaleX (nodes s t))"
    and y1: "scaleY (nodes s1 t) = scaleY (nodes s t)"
    by (simp_all add: s1_def)
  have "scaleX (nodes s2 t) = (if wx then u else scaleX (nodes s t))"
    using x1 by (simp add: s2_def)
  moreover have "scaleY (nodes s2 t) = (if wy then v else scaleY (nodes s t))"
    using y1 by (simp add: s2_def)
  ultimately show ?thesis using x y by blast
qed

lemma dragMove_axes:
  assumes ts: "tstate (nodes s this) = ts" "target ts = Some t"
      "activeAnchor ts = Some ''bottom-right''"
    and c: "chain (nodes s) t ps"
    and g: "getGlobalTransform s t = Some g"
    and b: "getSelfBounds s t = Some b"
  shows "\<exists>s'. handleDragMove s this e = Some s' \<and>
     scaleX (nodes s' t) =
       (if 0 < width b
        then max (1 / 10) ((width b * startScaleX ts +
          ((globalX e - startX ts) * cos (- drotation (decompose g)) -
           (globalY e - startY ts) * sin (- drotation (decompose g)))) / width b)
        else scaleX (nodes s t)) \<and>
     scaleY (nodes s' t) =
       (if 0 < height b
        then max (1 / 10) ((height b * startScaleY ts +
          ((globalX e - startX ts) * sin (- drotation (decompose g)) +
           (globalY e - startY ts) * cos (- drotation (decompose g)))) / height b)
        else scaleY (nodes s t))"
proof -
  define u where "u = max (1 / 10) ((width b * startScaleX ts +
          ((globalX e - startX ts) * cos (- drotation (decompose g)) -
           (globalY e - startY ts) * sin (- drotation (decompose g)))) / width b)"
  define v where "v = max (1 / 10) ((height b * startScaleY ts +
          ((globalX e - startX ts) * sin (- drotation (decompose g)) +
           (globalY e - startY ts) * cos (- drotation (decompose g)))) / height b)"
  from set_scale_axes [OF c, of "0 < width b" u "0 < height b" v] obtain s1 s2
    where r: "(if 0 < width b then set_scaleX s t u else Some s) = Some s1"
      "(if 0 < height b then set_scaleY s1 t v else Some s1) = Some s2"
      "scaleX (nodes s2 t) = (if 0 < width b then u else scaleX (nodes s t))"
      "scaleY (nodes s2 t) = (if 0 < height b then v else scaleY (nodes s t))"
    by blast
  have "handleDragMove s this e =
          Option.bind (if 0 < width b then set_scaleX s t u else Some s)
            (\<lambda>s1. if 0 < height b then set_scaleY s1 t v else Some s1)"
    unfolding u_def v_def using ts g b
    by (simp add: handleDragMove_def noAnchor_def Let_def)
  then have "handleDragMove s this e = Some s2"
    using r(1,2) by simp
  then show ?thesis using r(3,4) by (simp add: u_def v_def)
qed

lemma dragStart_nodes:
  "nodes (handleDragStart (anchored s 1 a c) 1 e) 0 = nodes s 0"
  "a \<noteq> [] \<Longrightarrow> target (tstate (nodes s 1)) = Some 0 \<Longrightarrow>
     tstate (nodes (handleDragStart (anchored s 1 a c) 1 e) 1) =
       (tstate (nodes s 1))\<lparr>activeAnchor := Some a, startX := globalX e, startY := globalY e,
          startWidth := numOr (props (nodes s 0) K_width) 0,
          startScaleX := scaleX (nodes s 0), startScaleY := scaleY (nodes s 0),
          startRotation := rotation (nodes s 0),
          startXPos := node_x (nodes s 0), startYPos := node_y (nodes s 0)\<rparr>"
  by (simp_all add: handleDragStart_def anchored_def set_cursor_def noAnchor_def
      split: option.splits)

lemma exampleThin_hit_bottom_right:
  "hitTest exampleThin 1 (Point 100 200) =
     Some (Some 1, anchored exampleThin 1 ''bottom-right'' ''se-resize'')"
proof -
  have k: "kind (nodes exampleThin 1) = TransformerNode"
    "target (tstate (nodes exampleThin 1)) = Some 0"
    "numOr (props (nodes exampleThin 1) K_handleSize) 10 = 10"
    by (simp_all add: exampleThin_def sceneOf_def newNode_def newState_def numOr_def)
  have n0: "nodes exampleThin 0 = (newNode RectShape)\<lparr>node_x := 100, node_y := 100,
             props := [K_width \<mapsto> Num 0, K_height \<mapsto> Num 100]\<rparr>"
    by (simp add: exampleThin_def sceneOf_def)
  note p = plain_rect [OF n0]
  have lp: "transformPoint (invert (Matrix2D 1 0 0 1 100 100)) (Point 100 200) = Point 0 100"
    by (simp add: invert_def transformPoint_def)
  have f: "find (onHandle (Point 0 100) 5) (handles (Rect 0 0 0 100)) =
             Some (0, 100, ''bottom-right'')"
    by (simp add: handles_def onHandle_def)
  define s1 where "s1 = upd exampleThin 1
       (\<lambda>nd. nd\<lparr>tstate := (tstate nd)\<lparr>activeAnchor := Some ''bottom-right''\<rparr>\<rparr>)"
  have "nodes s1 0 = (newNode RectShape)\<lparr>node_x := 100, node_y := 100,
             props := [K_width \<mapsto> Num 0, K_height \<mapsto> Num 100]\<rparr>"
    by (simp add: s1_def n0)
  note p1 = plain_rect [OF this]
  have t1: "target (tstate (nodes s1 1)) = Some 0"
    by (simp add: s1_def exampleThin_def sceneOf_def newNode_def newState_def)
  have ix: "indexOf anchors ''bottom-right'' = Some 4"
    by (simp add: anchors_def)
  have c: "getCursorForAnchor s1 1 ''bottom-right'' = Some ''se-resize''"
    using p1(2) t1 ix
    by (simp add: getCursorForAnchor_def decompose_translation round_js_def rem_js_def
        cursors_def Let_def)
  show ?thesis
    using k lp f c p(2,3)
    by (simp add: hitTest_transformer transformerHitTest_def anchored_def s1_def)
qed

text \<open>
  Claim C8, as amended.  \<open>handleDragMove\<close> resizes for the anchor
  \<open>bottom-right\<close> only.  There it takes the movement of the pointer since the start
  of the drag, rotates it by the negative of the rotation decomposed from the
  target's global transform, and sets the scale of the target on each axis whose
  self-bounds dimension is positive to
  \<open>(dimension * startScale + projected delta) / dimension\<close>, at least \<open>0.1\<close>;
  on an axis whose dimension is not positive the scale stays as it is.  For an
  unrotated target with 100 by 100 self-bounds at scale 1, a drag from \<open>(200,200)\<close>
  to \<open>(210,210)\<close> gives \<open>scaleX = scaleY = 1.1\<close>.  For every other corner or edge
  anchor \<open>handleDragMove\<close> returns with the store unchanged.
\<close>

theorem dragMove_resize:
  "(tstate (nodes s this) = ts \<and> target ts = Some t \<and>
    activeAnchor ts = Some ''bottom-right'' \<and> chain (nodes s) t ps \<and>
    getGlobalTransform s t = Some g \<and> getSelfBounds s t = Some b \<longrightarrow>
      (\<exists>s'. handleDragMove s this e = Some s' \<and>
         scaleX (nodes s' t) =
           (if 0 < width b
            then max (1 / 10) ((width b * startScaleX ts +
              ((globalX e - startX ts) * cos (- drotation (decompose g)) -
               (globalY e - startY ts) * sin (- drotation (decompose g)))) / width b)
            else scaleX (nodes s t)) \<and>
         scaleY (nodes s' t) =
           (if 0 < height b
            then max (1 / 10) ((height b * startScaleY ts +
              ((globalX e - startX ts) * sin (- drotation (decompose g)) +
               (globalY e - startY ts) * cos (- drotation (decompose g)))) / height b)
            else scaleY (nodes s t))) \<and>
      (g = Matrix2D 1 0 0 1 tx ty \<and> width b = 100 \<and> height b = 100 \<and>
       startScaleX ts = 1 \<and> startScaleY ts = 1 \<and> startX ts = 200 \<and> startY ts = 200 \<and>
       e = InteractionEvent 210 210 \<longrightarrow>
         (\<exists>s'. handleDragMove s this e = Some s' \<and>
            scaleX (nodes s' t) = 11 / 10 \<and> scaleY (nodes s' t) = 11 / 10))) \<and>
   (target (tstate (nodes s this)) = Some t \<and> activeAnchor (tstate (nodes s this)) = Some a \<and>
    a \<in> set anchors \<and> a \<noteq> ''bottom-right'' \<longrightarrow>
      handleDragMove s this e = Some s)"
proof (intro conjI impI)
  assume h: "tstate (nodes s this) = ts \<and> target ts = Some t \<and>
    activeAnchor ts = Some ''bottom-right'' \<and> chain (nodes s) t ps \<and>
    getGlobalTransform s t = Some g \<and> getSelfBounds s t = Some b"
  then show gen: "\<exists>s'. handleDragMove s this e = Some s' \<and>
         scaleX (nodes s' t) =
           (if 0 < width b
            then max (1 / 10) ((width b * startScaleX ts +
              ((globalX e - startX ts) * cos (- drotation (decompose g)) -
               (globalY e - startY ts) * sin (- drotation (decompose g)))) / width b)
            else scaleX (nodes s t)) \<and>
         scaleY (nodes s' t) =
           (if 0 < height b
            then max (1 / 10) ((height b * startScaleY ts +
              ((globalX e - startX ts) * sin (- drotation (decompose g)) +
               (globalY e - startY ts) * cos (- drotation (decompose g)))) / height b)
            else scaleY (nodes s t))"
    using dragMove_axes [of s this ts t ps g b e] by blast
  assume "g = Matrix2D 1 0 0 1 tx ty \<and> width b = 100 \<and> height b = 100 \<and>
       startScaleX ts = 1 \<and> startScaleY ts = 1 \<and> startX ts = 200 \<and> startY ts = 200 \<and>
       e = InteractionEvent 210 210"
  then show "\<exists>s'. handleDragMove s this e = Some s' \<and>
            scaleX (nodes s' t) = 11 / 10 \<and> scaleY (nodes s' t) = 11 / 10"
    using gen by (simp add: decompose_translation)
next
  assume "target (tstate (nodes s this)) = Some t \<and>
    activeAnchor (tstate (nodes s this)) = Some a \<and> a \<in> set anchors \<and> a \<noteq> ''bottom-right''"
  then show "handleDragMove s this e = Some s"
    by (intro dragMove_other_anchor [of s this t a]) (auto simp: anchors_def)
qed

theorem dragMove_resize_witness:
  "hitTest exampleGizmo 1 (Point 200 200) =
     Some (Some 1, anchored exampleGizmo 1 ''bottom-right'' ''se-resize'') \<and>
   (\<exists>s'. handleDragMove exampleBottomRight 1 (InteractionEvent 210 210) = Some s' \<and>
      scaleX (nodes s' 0) = 11 / 10 \<and> scaleY (nodes s' 0) = 11 / 10) \<and>
   hitTest exampleThin 1 (Point 100 200) =
     Some (Some 1, anchored exampleThin 1 ''bottom-right'' ''se-resize'') \<and>
   (\<exists>s'. handleDragMove
           (handleDragStart (anchored exampleThin 1 ''bottom-right'' ''se-resize'') 1
              (InteractionEvent 100 200))
           1 (InteractionEvent 110 210) = Some s' \<and>
      scaleX (nodes s' 0) = 1 \<and> scaleY (nodes s' 0) = 11 / 10) \<and>
   handleDragMove
     (handleDragStart (anchored exampleGizmo 1 ''middle-left'' ''w-resize'') 1
        (InteractionEvent 100 150))
     1 (InteractionEvent 90 150) =
   Some (handleDragStart (anchored exampleGizmo 1 ''middle-left'' ''w-resize'') 1
        (InteractionEvent 100 150))"
proof -
  define ts where "ts = tstate (nodes exampleBottomRight 1)"
  have ts: "target ts = Some 0" "activeAnchor ts = Some ''bottom-right''"
    "startScaleX ts = 1" "startScaleY ts = 1" "startX ts = 200" "startY ts = 200"
    by (simp_all add: ts_def exampleBottomRight_def dragged_nodes newState_def del: One_nat_def)
  note n0 = dragged_nodes(1) [of "''bottom-right''" "''se-resize''" "InteractionEvent 200 200",
      folded exampleBottomRight_def]
  note p = plain_rect [OF n0]
  define sl where "sl = handleDragStart (anchored exampleGizmo 1 ''middle-left'' ''w-resize'') 1
        (InteractionEvent 100 150)"
  have tl: "target (tstate (nodes sl 1)) = Some 0"
    "activeAnchor (tstate (nodes sl 1)) = Some ''middle-left''"
    by (simp_all add: sl_def dragged_nodes newState_def del: One_nat_def)
  define sn where "sn = handleDragStart (anchored exampleThin 1 ''bottom-right'' ''se-resize'') 1
        (InteractionEvent 100 200)"
  define tn where "tn = tstate (nodes sn 1)"
  have n0': "nodes sn 0 = (newNode RectShape)\<lparr>node_x := 100, node_y := 100,
             props := [K_width \<mapsto> Num 0, K_height \<mapsto> Num 100]\<rparr>"
    by (simp add: sn_def dragStart_nodes exampleThin_def sceneOf_def del: One_nat_def)
  have "target (tstate (nodes exampleThin 1)) = Some 0"
    by (simp add: exampleThin_def sceneOf_def newNode_def newState_def)
  then have tn: "target tn = Some 0" "activeAnchor tn = Some ''bottom-right''"
    "startScaleY tn = 1" "startX tn = 100" "startY tn = 200"
    by (simp_all add: tn_def sn_def dragStart_nodes exampleThin_def sceneOf_def newNode_def
        del: One_nat_def)
  note q = plain_rect [OF n0']
  have sc: "scaleX (nodes sn 0) = 1" by (simp add: n0' newNode_def)
  note t1 = dragMove_resize [of exampleBottomRight 1 ts 0 "[]" "Matrix2D 1 0 0 1 100 100"
      "Rect 0 0 100 100" "InteractionEvent 210 210" 100 100 "''middle-left''"]
  note t2 = dragMove_resize [of sl 1 ts 0 "[]" "Matrix2D 1 0 0 1 100 100"
      "Rect 0 0 100 100" "InteractionEvent 90 150" 100 100 "''middle-left''"]
  note t3 = dragMove_resize [of sn 1 tn 0 "[]" "Matrix2D 1 0 0 1 100 100"
      "Rect 0 0 0 100" "InteractionEvent 110 210" 100 100 "''middle-left''"]
  have a: "\<exists>s'. handleDragMove exampleBottomRight 1 (InteractionEvent 210 210) = Some s' \<and>
      scaleX (nodes s' 0) = 11 / 10 \<and> scaleY (nodes s' 0) = 11 / 10"
    using t1 ts p by (simp add: ts_def)
  have b: "handleDragMove sl 1 (InteractionEvent 90 150) = Some sl"
    using t2 tl by (simp add: anchors_def)
  have c: "\<exists>s'. handleDragMove sn 1 (InteractionEvent 110 210) = Some s' \<and>
      scaleX (nodes s' 0) = 1 \<and> scaleY (nodes s' 0) = 11 / 10"
    using t3 tn q sc by (simp add: tn_def decompose_translation)
  show ?thesis
    using a b c exampleGizmo_hit_bottom_right exampleThin_hit_bottom_right
    by (simp add: sl_def sn_def)
qed

text \<open>
  The claim as first stated (every corner or edge anchor resizes) fails: the hit test
  at \<open>(100,100)\<close> finds the anchor \<open>top-left\<close>, and after \<open>dragStart\<close> there
  a \<open>dragMove\<close> to \<open>(110,110)\<close> leaves the store as it was, the scale of the
  target still 1.
\<close>

theorem dragMove_top_left_counterexample:
  "hitTest exampleGizmo 1 (Point 100 100) =
     Some (Some 1, anchored exampleGizmo 1 ''top-left'' ''nw-resize'') \<and>
   activeAnchor (tstate (nodes exampleTopLeft 1)) = Some ''top-left'' \<and>
   handleDragMove exampleTopLeft 1 (InteractionEvent 110 110) = Some exampleTopLeft \<and>
   scaleX (nodes exampleTopLeft 0) = 1 \<and> scaleY (nodes exampleTopLeft 0) = 1"
proof -
  have t: "target (tstate (nodes exampleTopLeft 1)) = Some 0"
    "activeAnchor (tstate (nodes exampleTopLeft 1)) = Some ''top-left''"
    by (simp_all add: exampleTopLeft_def dragged_nodes newState_def del: One_nat_def)
  have m: "handleDragMove exampleTopLeft 1 (InteractionEvent 110 110) = Some exampleTopLeft"
    using t by (intro dragMove_other_anchor [of _ _ 0 "''top-left''"]) simp_all
  have sc: "scaleX (nodes exampleTopLeft 0) = 1" "scaleY (nodes exampleTopLeft 0) = 1"
    by (simp_all add: exampleTopLeft_def dragged_nodes newNode_def del: One_nat_def)
  show ?thesis using exampleGizmo_hit_top_left t m sc by simp
qed

text \<open>
  Claim C9.  On the rotate anchor \<open>handleDragMove\<close> sets the rotation of the target
  to \<open>atan2\<close> of the vector from the centre of the target's global bounds to the
  pointer, plus \<open>\<pi>/2\<close>; the value does not depend on the rotation at the start of
  the drag.  With the centre at \<open>(150,150)\<close> and the pointer at \<open>(230,150)\<close> the
  rotation becomes \<open>\<pi>/2\<close>.
\<close>

theorem dragMove_rotate:
  "tstate (nodes s this) = ts \<and> target ts = Some t \<and> activeAnchor ts = Some ''rotator'' \<and>
   chain (nodes s) t ps \<and> getGlobalBounds s t = Some b \<longrightarrow>
     (\<exists>s'. handleDragMove s this e = Some s' \<and>
        rotation (nodes s' t) =
          atan2 (globalY e - (ry b + height b / 2)) (globalX e - (rx b + width b / 2)) + pi / 2) \<and>
     (rx b + width b / 2 = 150 \<and> ry b + height b / 2 = 150 \<and> e = InteractionEvent 230 150 \<longrightarrow>
        (\<exists>s'. handleDragMove s this e = Some s' \<and> rotation (nodes s' t) = pi / 2))"
proof (intro impI conjI)
  assume "tstate (nodes s this) = ts \<and> target ts = Some t \<and> activeAnchor ts = Some ''rotator'' \<and>
   chain (nodes s) t ps \<and> getGlobalBounds s t = Some b"
  then show gen: "\<exists>s'. handleDragMove s this e = Some s' \<and>
        rotation (nodes s' t) =
          atan2 (globalY e - (ry b + height b / 2)) (globalX e - (rx b + width b / 2)) + pi / 2"
    using dragMove_rotator [of s this ts t ps b e] by blast
  assume "rx b + width b / 2 = 150 \<and> ry b + height b / 2 = 150 \<and> e = InteractionEvent 230 150"
  then show "\<exists>s'. handleDragMove s this e = Some s' \<and> rotation (nodes s' t) = pi / 2"
    using gen by (simp add: atan2_def)
qed

theorem dragMove_rotate_witness:
  "hitTest exampleGizmo 1 (Point 150 70) =
     Some (Some 1, anchored exampleGizmo 1 ''rotator'' ''grab'') \<and>
   (\<exists>s'. handleDragMove exampleRotator 1 (InteractionEvent 230 150) = Some s' \<and>
      rotation (nodes s' 0) = pi / 2)"
proof -
  define ts where "ts = tstate (nodes exampleRotator 1)"
  have ts: "target ts = Some 0" "activeAnchor ts = Some ''rotator''"
    by (simp_all add: ts_def exampleRotator_def dragged_nodes newState_def del: One_nat_def)
  note n0 = dragged_nodes(1) [of "''rotator''" "''grab''" "InteractionEvent 150 70",
      folded exampleRotator_def]
  note p = plain_rect [OF n0]
  have "\<exists>s'. handleDragMove exampleRotator 1 (InteractionEvent 230 150) = Some s' \<and>
      rotation (nodes s' 0) = pi / 2"
    using dragMove_rotate [of exampleRotator 1 ts 0 "[]" "Rect 100 100 100 100"
        "InteractionEvent 230 150"] ts p
    by (simp add: ts_def)
  then show ?thesis using exampleGizmo_hit_rotator by simp
qed

end
